theory Spec2Isabelle
  imports Main "HOL-Library.Multiset" "HOL-Library.Sublist"
begin

section \<open>Strings of the program\<close>

text \<open>
  A JavaScript string is modelled as a \<open>string\<close> whose characters stand for the code
  units U+0000 .. U+00FF. \<open>String.prototype.trim\<close> and the regular expression class
  \<open>\s\<close> use the same set of white space and line terminator characters; within the
  modelled range these are TAB, LF, VT, FF, CR, SPACE and NO-BREAK SPACE.
\<close>

definition is_ws :: "char \<Rightarrow> bool" where
  "is_ws c = (c \<in> set [CHR 0x09, CHR 0x0A, CHR 0x0B, CHR 0x0C, CHR 0x0D, CHR 0x20, CHR 0xA0])"

text \<open>\<open>s.trim()\<close>\<close>

definition trim :: "string \<Rightarrow> string" where
  "trim s = rev (dropWhile is_ws (rev (dropWhile is_ws s)))"

text \<open>\<open>s.split("\n")\<close>: the pieces between line feeds; there is always at least one piece.\<close>

fun split_nl :: "string \<Rightarrow> string \<times> string list" where
  "split_nl [] = ([], [])"
| "split_nl (c # cs) =
     (let (l, ls) = split_nl cs
      in if c = CHR 0x0A then ([], l # ls) else (c # l, ls))"

text \<open>
  \<open>s.split(/\s+/)\<close>: the pieces between maximal runs of white space. The array always
  has a first element (\<open>parts[0]\<close>); the second component is \<open>parts.slice(1)\<close>.
\<close>

function split_ws :: "string \<Rightarrow> string \<times> string list" where
  "split_ws [] = ([], [])"
| "split_ws (c # cs) =
     (if is_ws c then (let (w, ws) = split_ws (dropWhile is_ws cs) in ([], w # ws))
      else (let (w, ws) = split_ws cs in (c # w, ws)))"
  by pat_completeness auto
termination
  by (relation "measure length") (auto intro: le_imp_less_Suc length_dropWhile_le)

text \<open>\<open>xs.join(sep)\<close>\<close>

fun join :: "string \<Rightarrow> string list \<Rightarrow> string" where
  "join sep [] = []"
| "join sep [x] = x"
| "join sep (x # y # ys) = x @ sep @ join sep (y # ys)"

section \<open>Console output\<close>

text \<open>
  The icons of the source are single symbols outside the modelled character range:
  \<open>Check\<close> is U+2705, \<open>Lock\<close> U+1F512, \<open>Hourglass\<close> U+23F3, \<open>Question\<close> U+2753,
  \<open>Cross\<close> U+274C, \<open>Warn\<close> U+26A0 U+FE0F, \<open>Tag\<close> U+1F3F7 U+FE0F and \<open>Trash\<close> U+1F5D1 U+FE0F.
  \<open>EmDash\<close> is the dash U+2014 in the heading of a dry run.
\<close>

datatype icon = Check | Lock | Hourglass | Question | Cross | Warn | Tag | Trash | EmDash

text \<open>
  A template literal is the list of its pieces: literal text, an interpolated string, an
  interpolated number, an icon.
\<close>

datatype piece = T string | N nat | I icon

text \<open>
  The methods of the spinner that print a line, and \<open>console.log\<close>. The animation of the
  spinner (\<open>updateMessage\<close>, \<open>start\<close>, \<open>stop\<close>) prints no line of its own and decides
  nothing; it is left out, as is the colour argument of \<open>log\<close>.
\<close>

datatype level = Success | Error | Warning | Info | Debug | Log

type_synonym event = "level \<times> piece list"

section \<open>Command executor\<close>

text \<open>The error object thrown by \<open>execSync\<close>: the fields the program reads.\<close>

record exec_error =
  code :: "string option"
  signal :: "string option"
  message :: string

text \<open>
  What one call of \<open>execSync\<close> does: it returns a string (the captured standard
  output), returns \<open>null\<close> (nothing was captured), or throws.
\<close>

datatype exec_outcome = Returned string | ReturnedNull | Threw exec_error

text \<open>The \<open>options\<close> argument of \<open>execCommand\<close>; an absent key is \<open>None\<close>.\<close>

record options =
  silent :: "bool option"
  timeout :: "nat option"

datatype stdio = Pipe | Inherit

text \<open>The options object handed to \<open>execSync\<close>.\<close>

record exec_options =
  encoding :: string
  stdio :: stdio
  timeout_ms :: nat

text \<open>
  Everything outside the program (the processes it starts, the answers it gets) is a world
  \<open>'w\<close> that each call takes and returns. \<open>execSync\<close> and the methods of the tool that
  the tests replace are parameters of this kind.
\<close>

type_synonym 'w execSync = "string \<Rightarrow> exec_options \<Rightarrow> 'w \<Rightarrow> exec_outcome \<times> 'w"

text \<open>
  The value an awaited call settles to: \<open>Inl\<close> is a thrown error (a rejected promise),
  \<open>Inr None\<close> is \<open>null\<close>, \<open>Inr (Some s)\<close> a string.
\<close>

type_synonym settled = "exec_error + string option"

type_synonym 'w exec = "string \<Rightarrow> options \<Rightarrow> 'w \<Rightarrow> settled \<times> 'w"

definition truthy_bool :: "bool option \<Rightarrow> bool" where
  "truthy_bool b = (b = Some True)"

definition DEFAULT_TIMEOUT :: nat where
  "DEFAULT_TIMEOUT = 30000"

text \<open>
  \<open>options.timeout || 30000\<close>, then the spread \<open>...options\<close>, which writes the caller's
  \<open>timeout\<close> key again when it is present.
\<close>

definition exec_options_of :: "options \<Rightarrow> exec_options" where
  "exec_options_of opts =
     (let timeout0 = (case timeout opts of None \<Rightarrow> DEFAULT_TIMEOUT
                      | Some t \<Rightarrow> if t = 0 then DEFAULT_TIMEOUT else t)
      in \<lparr> encoding = ''utf8'',
           stdio = (if truthy_bool (silent opts) then Pipe else Inherit),
           timeout_ms = (case timeout opts of None \<Rightarrow> timeout0 | Some t \<Rightarrow> t) \<rparr>)"

definition TIMEOUT_SENTINEL :: string where
  "TIMEOUT_SENTINEL = ''__TIMEOUT__''"

definition is_timeout :: "exec_error \<Rightarrow> bool" where
  "is_timeout error = (code error = Some ''ETIMEDOUT'' \<or> signal error = Some ''SIGTERM'')"

text \<open>
  The \<open>TypeError\<close> that \<open>result.trim()\<close> throws when \<open>result\<close> is \<open>null\<close>. It has
  neither a \<open>code\<close> nor a \<open>signal\<close>.
\<close>

definition null_trim_error :: exec_error where
  "null_trim_error =
     \<lparr>code = None, signal = None,
      message = ''Cannot read properties of null (reading '' @ [CHR 0x27] @ ''trim''
        @ [CHR 0x27] @ '')''\<rparr>"

text \<open>The \<open>catch\<close> block of \<open>execCommand\<close>.\<close>

definition execCommand_catch :: "options \<Rightarrow> exec_error \<Rightarrow> settled" where
  "execCommand_catch opts error =
     (if \<not> truthy_bool (silent opts) then Inl error
      else if is_timeout error then Inr (Some TIMEOUT_SENTINEL)
      else Inr None)"

text \<open>
  \<open>execCommand(command, options)\<close>. Both the call of \<open>execSync\<close> and \<open>result.trim()\<close>
  stand in the \<open>try\<close> block.
\<close>

definition execCommand :: "'w execSync \<Rightarrow> 'w exec" where
  "execCommand execSync command opts w =
     (case execSync command (exec_options_of opts) w of
        (Returned result, w') \<Rightarrow> (Inr (Some (trim result)), w')
      | (ReturnedNull, w') \<Rightarrow> (execCommand_catch opts null_trim_error, w')
      | (Threw error, w') \<Rightarrow> (execCommand_catch opts error, w'))"

text \<open>
  \<open>execSync\<close> is not code of the repository but of Node's \<open>child_process\<close>. It hands
  back the standard output of the child only when that output is piped; with
  \<open>stdio: "inherit"\<close> the output goes to the terminal, nothing is captured, and the call
  returns \<open>null\<close>. Here \<open>child\<close> is what the child process does (its output when it
  exits normally, or its failure), and \<open>node_execSync child\<close> is what \<open>execSync\<close> then
  gives.
\<close>

definition node_execSync :: "'w execSync \<Rightarrow> 'w execSync" where
  "node_execSync child command eo w =
     (case child command eo w of
        (Returned out, w') \<Rightarrow> (if stdio eo = Pipe then Returned out else ReturnedNull, w')
      | (ReturnedNull, w') \<Rightarrow> (ReturnedNull, w')
      | (Threw error, w') \<Rightarrow> (Threw error, w'))"

section \<open>The tool\<close>

text \<open>One row of the results table: \<open>{ branch, icon, label }\<close>.\<close>

record pr_result =
  branch :: string
  icon :: icon
  label :: string

text \<open>
  The fields of \<open>GitCleanupTool\<close> that the modelled methods read or write, and the lines
  printed so far. An entry \<open>None\<close> of \<open>prResults\<close> is \<open>undefined\<close>.
\<close>

record tool =
  dryRun :: bool
  verbose :: bool
  untrackedOnly :: bool
  branchesToDelete :: "string list"
  prResults :: "pr_result option list"
  currentBranch :: string
  events :: "event list"

definition emit :: "level \<Rightarrow> piece list \<Rightarrow> tool \<Rightarrow> tool" where
  "emit lv msg t = t\<lparr>events := events t @ [(lv, msg)]\<rparr>"

text \<open>The double quote and the apostrophe, as strings.\<close>

definition dq :: string where
  "dq = [CHR 0x22]"

definition sq :: string where
  "sq = [CHR 0x27]"

section \<open>Branch classifier\<close>

text \<open>
  \<open>branches.split("\n").filter((line) => line.trim() !== "").map((line) => line.trim())\<close>
\<close>

definition branchLines :: "string \<Rightarrow> string list" where
  "branchLines branches =
     (let (l, ls) = split_nl branches
      in map trim (filter (\<lambda>line. trim line \<noteq> []) (l # ls)))"

text \<open>The body of the loop over \<open>branchLines\<close>: \<open>result\<close> is the array being filled.\<close>

definition getBranches_line :: "string \<Rightarrow> string \<Rightarrow> string list \<Rightarrow> string \<Rightarrow> string list" where
  "getBranches_line mode current result line =
     (let (branchName, rest) = split_ws line;
          upstream = join '' '' rest
      in if branchName \<in> set [''main'', ''master'', current] then result
         else let isTracked = (upstream \<noteq> [] \<and> trim upstream \<noteq> [])
              in if mode = ''tracked'' \<and> isTracked then result @ [branchName]
                 else if mode = ''untracked'' \<and> \<not> isTracked then result @ [branchName]
                 else if mode = ''all'' then result @ [branchName]
                 else result)"

definition LIST_COMMAND :: string where
  "LIST_COMMAND = ''git for-each-ref --format='' @ dq @
     ''%(refname:short) %(upstream:short)'' @ dq @ '' refs/heads/''"

text \<open>
  \<open>getBranches(mode)\<close>, with \<open>this.execCommand\<close> as \<open>exec\<close>. The result is the returned
  array, the tool (whose printed lines may have grown) and the world.
\<close>

definition getBranches :: "string \<Rightarrow> 'w exec \<Rightarrow> tool \<Rightarrow> 'w \<Rightarrow> string list \<times> tool \<times> 'w" where
  "getBranches mode exec t w =
     (case exec LIST_COMMAND \<lparr>silent = Some True, timeout = None\<rparr> w of
        (Inl error, w') \<Rightarrow> ([], emit Error [T ''Failed to get '', T mode, T '' branches''] t, w')
      | (Inr None, w') \<Rightarrow> ([], emit Error [T ''Failed to get '', T mode, T '' branches''] t, w')
      | (Inr (Some branches), w') \<Rightarrow>
          if branches = TIMEOUT_SENTINEL
          then ([], emit Error [T ''Failed to get '', T mode, T '' branches (timeout)''] t, w')
          else (foldl (getBranches_line mode (currentBranch t)) [] (branchLines branches), t, w'))"

definition getLocalBranches :: "'w exec \<Rightarrow> tool \<Rightarrow> 'w \<Rightarrow> string list \<times> tool \<times> 'w" where
  "getLocalBranches = getBranches ''all''"

definition getTrackedBranches :: "'w exec \<Rightarrow> tool \<Rightarrow> 'w \<Rightarrow> string list \<times> tool \<times> 'w" where
  "getTrackedBranches = getBranches ''tracked''"

definition getUntrackedBranches :: "'w exec \<Rightarrow> tool \<Rightarrow> 'w \<Rightarrow> string list \<times> tool \<times> 'w" where
  "getUntrackedBranches = getBranches ''untracked''"

section \<open>PR status resolver\<close>

definition PR_TIMEOUT :: nat where
  "PR_TIMEOUT = 10000"

definition pr_command :: "string \<Rightarrow> string" where
  "pr_command b = ''gh pr view '' @ dq @ b @ dq @ '' --json state --jq .state''"

text \<open>\<open>getPRStatus(branch)\<close>, with \<open>this.execCommand\<close> as \<open>exec\<close>: it returns a string or \<open>null\<close>.\<close>

definition getPRStatus :: "'w exec \<Rightarrow> string \<Rightarrow> 'w \<Rightarrow> string option \<times> 'w" where
  "getPRStatus exec b w =
     (case exec (pr_command b) \<lparr>silent = Some True, timeout = Some PR_TIMEOUT\<rparr> w of
        (Inl error, w') \<Rightarrow> (None, w')
      | (Inr result, w') \<Rightarrow> (result, w'))"

section \<open>Worker pools\<close>

text \<open>
  Both batch operations start a fixed number of workers (\<open>fluidWorker\<close>,
  \<open>deletionWorker\<close>) that share a counter. A worker is an \<open>async\<close> loop: it runs
  without interruption up to its next \<open>await\<close>, and is resumed when the awaited call has
  settled. Between two suspensions it is in one of three places:
  \<^item> \<open>Ready\<close>: about to take the next index from the counter;
  \<^item> \<open>Awaiting i r\<close>: it took index \<open>i\<close>, made its call, and is suspended on the
    promise, which settles to \<open>r\<close>;
  \<^item> \<open>Done\<close>: it found the counter exhausted and left its loop.
\<close>

datatype wstate = Ready | Awaiting nat settled | Done

fun finished :: "wstate \<Rightarrow> bool" where
  "finished Done = True"
| "finished _ = False"

text \<open>
  The state of a pool: the workers, the shared counter (\<open>nextIndex\<close>,
  \<open>nextDeleteIndex\<close>), the world, and the variables the workers share.
\<close>

record ('w, 's) pool =
  workers :: "wstate list"
  nextIndex :: nat
  world :: 'w
  shared :: 's

text \<open>
  One resumption of worker \<open>k\<close>, up to its next suspension. \<open>call i\<close> is the call the
  worker makes for index \<open>i\<close> before it suspends; \<open>settle i r\<close> is what it does with
  the shared variables once the call has settled to \<open>r\<close>. A \<open>Ready\<close> worker reads the
  counter (\<open>getNextBranchIndex\<close>, \<open>getNextDeleteBranch\<close>): at \<open>totalUnits\<close>, the number
  of work units, it leaves the loop, otherwise it takes the index, advances the counter
  and makes its call. Only an unfinished worker \<open>k\<close> of the pool is ever resumed.
\<close>

definition worker_step :: "(nat \<Rightarrow> 'w \<Rightarrow> settled \<times> 'w) \<Rightarrow> (nat \<Rightarrow> settled \<Rightarrow> 's \<Rightarrow> 's) \<Rightarrow> nat
    \<Rightarrow> nat \<Rightarrow> ('w, 's) pool \<Rightarrow> ('w, 's) pool" where
  "worker_step call settle totalUnits k p =
     (case workers p ! k of
        Ready \<Rightarrow>
          if nextIndex p \<ge> totalUnits then p\<lparr>workers := (workers p)[k := Done]\<rparr>
          else (let i = nextIndex p; (r, w') = call i (world p)
                in p\<lparr>workers := (workers p)[k := Awaiting i r], nextIndex := i + 1, world := w'\<rparr>)
      | Awaiting i r \<Rightarrow>
          p\<lparr>workers := (workers p)[k := Ready], shared := settle i r (shared p)\<rparr>
      | Done \<Rightarrow> p)"

text \<open>
  \<open>await Promise.all(workers)\<close>: the event loop resumes one unfinished worker after the
  other until all have left their loops. Which worker is resumed next is not decided by
  the program; \<open>pick\<close> is that choice, as a function of the pool. A choice that names no
  unfinished worker falls back on the first unfinished one.
\<close>

definition first_active :: "('w, 's) pool \<Rightarrow> nat" where
  "first_active p = length (takeWhile finished (workers p))"

definition resumed :: "(('w, 's) pool \<Rightarrow> nat) \<Rightarrow> ('w, 's) pool \<Rightarrow> nat" where
  "resumed pick p =
     (if pick p < length (workers p) \<and> \<not> finished (workers p ! pick p) then pick p
      else first_active p)"

text \<open>
  A bound on the resumptions still to come: each index not yet taken costs two (its call
  and its settling), each worker what it has left to do. Every resumption lowers it, so
  \<open>Promise.all\<close> is reached under every choice.
\<close>

fun weight :: "wstate \<Rightarrow> nat" where
  "weight Ready = 1"
| "weight (Awaiting i r) = 2"
| "weight Done = 0"

definition remaining :: "nat \<Rightarrow> ('w, 's) pool \<Rightarrow> nat" where
  "remaining totalUnits p = 2 * (totalUnits - nextIndex p) + sum_list (map weight (workers p))"

function drive :: "(nat \<Rightarrow> 'w \<Rightarrow> settled \<times> 'w) \<Rightarrow> (nat \<Rightarrow> settled \<Rightarrow> 's \<Rightarrow> 's) \<Rightarrow> nat
    \<Rightarrow> (('w, 's) pool \<Rightarrow> nat) \<Rightarrow> ('w, 's) pool \<Rightarrow> ('w, 's) pool" where
  "drive call settle totalUnits pick p =
     (if list_all finished (workers p) then p
      else drive call settle totalUnits pick (worker_step call settle totalUnits (resumed pick p) p))"
  by pat_completeness auto
termination
proof (relation "measure (\<lambda>(call, settle, totalUnits, pick, p). remaining totalUnits p)")
  show "wf (measure (\<lambda>(call, settle, totalUnits, pick, p). remaining totalUnits p))"
    by simp
next
  fix call :: "nat \<Rightarrow> 'w \<Rightarrow> settled \<times> 'w" and settle :: "nat \<Rightarrow> settled \<Rightarrow> 's \<Rightarrow> 's"
    and totalUnits :: nat and pick :: "('w, 's) pool \<Rightarrow> nat" and p :: "('w, 's) pool"
  assume active: "\<not> list_all finished (workers p)"
  define k where "k = resumed pick p"
  have "length (takeWhile finished (workers p)) < length (workers p)"
  proof (rule ccontr)
    assume "\<not> length (takeWhile finished (workers p)) < length (workers p)"
    then have "length (takeWhile finished (workers p)) = length (workers p)"
      using length_takeWhile_le [of finished "workers p"] by simp
    then have "takeWhile finished (workers p) = workers p"
      using takeWhile_eq_take [of finished "workers p"] by simp
    then show False using active by (simp add: list_all_iff)
  qed
  then have "first_active p < length (workers p) \<and> \<not> finished (workers p ! first_active p)"
    unfolding first_active_def by (simp add: nth_length_takeWhile)
  then have k: "k < length (workers p)" and nf: "\<not> finished (workers p ! k)"
    unfolding k_def resumed_def by auto
  have upd: "\<And>v. sum_list (map weight ((workers p)[k := v]))
      = sum_list (map weight (workers p)) + weight v - weight (workers p ! k)"
    using k by (simp add: map_update sum_list_update)
  have le: "weight (workers p ! k) \<le> sum_list (map weight (workers p))"
    using k by (simp add: member_le_sum_list)
  have "remaining totalUnits (worker_step call settle totalUnits k p) < remaining totalUnits p"
  proof (cases "workers p ! k")
    case Ready
    then show ?thesis using upd le
      by (auto simp: worker_step_def remaining_def Let_def split: prod.splits)
  next
    case (Awaiting i r)
    then show ?thesis using upd le
      by (auto simp: worker_step_def remaining_def)
  next
    case Done
    then show ?thesis using nf by simp
  qed
  then show "((call, settle, totalUnits, pick, worker_step call settle totalUnits (resumed pick p) p),
              (call, settle, totalUnits, pick, p))
             \<in> measure (\<lambda>(call, settle, totalUnits, pick, p). remaining totalUnits p)"
    by (simp add: k_def)
qed

declare drive.simps [simp del]

text \<open>\<open>Array(n).fill(null).map(() => worker())\<close> with the counter at 0.\<close>

definition spawn :: "nat \<Rightarrow> 'w \<Rightarrow> 's \<Rightarrow> ('w, 's) pool" where
  "spawn n w s = \<lparr>workers = replicate n Ready, nextIndex = 0, world = w, shared = s\<rparr>"

section \<open>Concurrent batch processor\<close>

text \<open>The \<open>switch\<close> of \<open>processBranch\<close>: icon, label, and whether \<open>addBranchToDelete\<close> is called.\<close>

definition status_entry :: "string option \<Rightarrow> icon \<times> string \<times> bool" where
  "status_entry prStatus =
     (if prStatus = Some ''MERGED'' then (Check, ''Merged'', True)
      else if prStatus = Some ''CLOSED'' then (Lock, ''Closed'', True)
      else if prStatus = Some ''OPEN'' then (Hourglass, ''Open'', False)
      else if prStatus = Some ''__TIMEOUT__'' then (Question, ''Timeout'', False)
      else (Cross, ''No PR'', False))"

text \<open>
  The variables the workers of \<open>checkBranches\<close> share, and the lines they print (only
  \<open>debug\<close> lines, in verbose mode).
\<close>

record check_vars =
  resultsMap :: "string \<rightharpoonup> pr_result"
  branchesToDeleteSync :: "string list"
  debugLines :: "event list"

text \<open>\<open>this.getPRStatus\<close> as the program calls it: an awaited call that may reject.\<close>

type_synonym 'w query = "string \<Rightarrow> 'w \<Rightarrow> settled \<times> 'w"

text \<open>
  \<open>processBranch\<close> up to \<open>await this.getPRStatus(branch)\<close>. The index comes from
  \<open>getNextBranchIndex\<close> and is below \<open>branches.length\<close>.
\<close>

definition processBranch_call :: "'w query \<Rightarrow> string list \<Rightarrow> nat \<Rightarrow> 'w \<Rightarrow> settled \<times> 'w" where
  "processBranch_call query branches branchIndex w = query (branches ! branchIndex) w"

text \<open>\<open>prStatus || "unknown"\<close>\<close>

definition status_text :: "string option \<Rightarrow> string" where
  "status_text prStatus =
     (case prStatus of None \<Rightarrow> ''unknown'' | Some st \<Rightarrow> if st = [] then ''unknown'' else st)"

text \<open>\<open>processBranch\<close> after the status has arrived.\<close>

definition processBranch_resume :: "bool \<Rightarrow> string list \<Rightarrow> nat \<Rightarrow> string option \<Rightarrow> check_vars
    \<Rightarrow> check_vars" where
  "processBranch_resume verbose_on branches branchIndex prStatus v =
     (let b = branches ! branchIndex;
          v1 = (if verbose_on
                then v\<lparr>debugLines := debugLines v @
                       [(Debug, [T ''Checking branch '', N (branchIndex + 1), T ''/'',
                                 N (length branches), T '': '', T b, T '' -> PR state: '',
                                 T (status_text prStatus)])]\<rparr>
                else v);
          (icon_of, label_of, added) = status_entry prStatus;
          v2 = (if added
                then v1\<lparr>branchesToDeleteSync := branchesToDeleteSync v1 @ [b]\<rparr>
                else v1)
      in v2\<lparr>resultsMap := (resultsMap v2)(b \<mapsto> \<lparr>branch = b, icon = icon_of, label = label_of\<rparr>)\<rparr>)"

text \<open>
  What \<open>fluidWorker\<close> does when \<open>await processBranch(branchIndex)\<close> is over: nothing more
  when it returned, the \<open>catch\<close> block when it threw.
\<close>

definition fluidWorker_settle :: "bool \<Rightarrow> string list \<Rightarrow> nat \<Rightarrow> settled \<Rightarrow> check_vars
    \<Rightarrow> check_vars" where
  "fluidWorker_settle verbose_on branches branchIndex r v =
     (case r of
        Inr prStatus \<Rightarrow> processBranch_resume verbose_on branches branchIndex prStatus v
      | Inl error \<Rightarrow>
          (let b = branches ! branchIndex;
               v1 = v\<lparr>resultsMap := (resultsMap v)(b \<mapsto> \<lparr>branch = b, icon = Warn, label = ''Error''\<rparr>)\<rparr>
           in if verbose_on
              then v1\<lparr>debugLines := debugLines v1 @
                     [(Debug, [T (''Error checking '' @ sq), T b, T (sq @ '': ''),
                               T (message error)])]\<rparr>
              else v1))"

definition CONCURRENCY_LIMIT :: nat where
  "CONCURRENCY_LIMIT = 5"

text \<open>
  \<open>checkBranches()\<close>, with \<open>this.getTrackedBranches\<close> and \<open>this.getPRStatus\<close> as
  parameters. The result is the tool, the world, and the pool as \<open>Promise.all\<close> left it
  (\<open>None\<close> when the method returned before creating it).
\<close>

definition checkBranches :: "(tool \<Rightarrow> 'w \<Rightarrow> string list \<times> tool \<times> 'w) \<Rightarrow> 'w query
    \<Rightarrow> (('w, check_vars) pool \<Rightarrow> nat) \<Rightarrow> tool \<Rightarrow> 'w
    \<Rightarrow> tool \<times> 'w \<times> ('w, check_vars) pool option" where
  "checkBranches getTracked query pick t w =
     (let (branches, t1, w1) = getTracked t w
      in if length branches = 0
         then (emit Info [T ''You might want to use --untracked-only to see local-only branches.'']
                 (emit Warning [T ''No tracked branches found to check.''] t1), w1, None)
         else
           (let totalBranches = length branches;
                p = drive (processBranch_call query branches)
                      (fluidWorker_settle (verbose t1) branches) totalBranches pick
                      (spawn (min CONCURRENCY_LIMIT totalBranches) w1
                         \<lparr>resultsMap = Map.empty, branchesToDeleteSync = [], debugLines = []\<rparr>);
                t2 = t1\<lparr>events := events t1 @ debugLines (shared p),
                        prResults := map (resultsMap (shared p)) branches,
                        branchesToDelete := branchesToDeleteSync (shared p)\<rparr>
            in (emit Log [T '''']
                  (emit Success [T ''Finished checking '', N totalBranches, T '' tracked branches''] t2),
                world p, Some p)))"

section \<open>Deletion batch processor\<close>

datatype js_error = TypeError

text \<open>
  \<open>this.prResults.find((r) => r.branch === branch)\<close>: reading \<open>branch\<close> of an
  \<open>undefined\<close> entry throws.
\<close>

fun find_result :: "pr_result option list \<Rightarrow> string \<Rightarrow> js_error + pr_result option" where
  "find_result [] b = Inr None"
| "find_result (None # rs) b = Inl TypeError"
| "find_result (Some r # rs) b = (if branch r = b then Inr (Some r) else find_result rs b)"

text \<open>The \<open>forEach\<close> that lists the branches with their icons.\<close>

fun list_candidates :: "string list \<Rightarrow> tool \<Rightarrow> js_error + tool" where
  "list_candidates [] t = Inr t"
| "list_candidates (b # bs) t =
     (case find_result (prResults t) b of
        Inl e \<Rightarrow> Inl e
      | Inr found \<Rightarrow>
          list_candidates bs
            (emit Log [T ''  '', I (case found of Some r \<Rightarrow> icon r | None \<Rightarrow> Trash), T '' '', T b] t))"

record delete_vars =
  deletedCount :: nat
  failedBranchesSync :: "string list"
  logLines :: "event list"

definition delete_command :: "string \<Rightarrow> string" where
  "delete_command b = ''git branch -d '' @ dq @ b @ dq"

text \<open>
  \<open>deletionWorker\<close> from \<open>getNextDeleteBranch\<close> up to \<open>await this.execCommand(...)\<close>;
  the progress counter only feeds the spinner's message.
\<close>

definition deletion_call :: "'w exec \<Rightarrow> string list \<Rightarrow> nat \<Rightarrow> 'w \<Rightarrow> settled \<times> 'w" where
  "deletion_call exec branchesToDeleteCopy i w =
     exec (delete_command (branchesToDeleteCopy ! i)) \<lparr>silent = Some True, timeout = None\<rparr> w"

text \<open>\<open>deletionWorker\<close> after the command has settled: the three branches and the \<open>catch\<close>.\<close>

definition deletion_settle :: "string list \<Rightarrow> nat \<Rightarrow> settled \<Rightarrow> delete_vars \<Rightarrow> delete_vars" where
  "deletion_settle branchesToDeleteCopy i r v =
     (let b = branchesToDeleteCopy ! i
      in case r of
           Inr (Some result) \<Rightarrow>
             if result = TIMEOUT_SENTINEL
             then v\<lparr>failedBranchesSync := failedBranchesSync v @ [b],
                    logLines := logLines v @
                      [(Log, [I Cross, T '' Failed to delete branch '', T b, T '' (timeout)''])]\<rparr>
             else v\<lparr>deletedCount := deletedCount v + 1,
                    logLines := logLines v @ [(Log, [I Check, T '' Deleted branch '', T b])]\<rparr>
         | Inr None \<Rightarrow>
             v\<lparr>failedBranchesSync := failedBranchesSync v @ [b],
               logLines := logLines v @ [(Log, [I Cross, T '' Failed to delete branch '', T b])]\<rparr>
         | Inl error \<Rightarrow>
             v\<lparr>failedBranchesSync := failedBranchesSync v @ [b],
               logLines := logLines v @ [(Log, [I Cross, T '' Failed to delete branch '', T b])]\<rparr>)"

definition DELETE_CONCURRENCY :: nat where
  "DELETE_CONCURRENCY = 3"

text \<open>The final status of a confirmed deletion.\<close>

definition deletion_summary :: "delete_vars \<Rightarrow> tool \<Rightarrow> tool" where
  "deletion_summary v t =
     (if length (failedBranchesSync v) = 0
      then emit Success [T ''Successfully deleted '', N (deletedCount v), T '' branches''] t
      else foldl (\<lambda>t' b. emit Log [T ''  Failed: '', T b] t')
             (emit Warning [T ''Deleted '', N (deletedCount v), T '' branches, '',
                            N (length (failedBranchesSync v)), T '' failed''] t)
             (failedBranchesSync v))"

definition confirmationMessage :: "tool \<Rightarrow> string" where
  "confirmationMessage t =
     (if untrackedOnly t then ''Proceed with deletion of untracked branches? (y/N): ''
      else ''Proceed with deletion? (y/N): '')"

text \<open>
  \<open>deleteBranches()\<close>, with \<open>this.execCommand\<close> and \<open>this.askConfirmation\<close> as
  parameters. \<open>Inl\<close> is a thrown error.
\<close>

definition deleteBranches :: "'w exec \<Rightarrow> (string \<Rightarrow> 'w \<Rightarrow> bool \<times> 'w)
    \<Rightarrow> (('w, delete_vars) pool \<Rightarrow> nat) \<Rightarrow> tool \<Rightarrow> 'w
    \<Rightarrow> js_error + tool \<times> 'w \<times> ('w, delete_vars) pool option" where
  "deleteBranches exec askConfirmation pick t w =
     (if length (branchesToDelete t) = 0
      then Inr (emit Warning
                  [T (if untrackedOnly t then ''No untracked local branches found.''
                      else ''No branches with merged or closed PRs found.'')] t, w, None)
      else
        (let t1 = emit Log [T ''''] t;
             t2 = (if dryRun t
                   then emit Warning [T ''DRY RUN '', I EmDash, T '' branches eligible for deletion:''] t1
                   else emit Error
                     [T (if untrackedOnly t
                         then ''The following untracked local branches will be deleted:''
                         else ''The following branches have merged or closed PRs and will be deleted:'')]
                     t1)
         in case list_candidates (branchesToDelete t) t2 of
              Inl e \<Rightarrow> Inl e
            | Inr t3 \<Rightarrow>
                if dryRun t
                then Inr (emit Info
                            [T (if untrackedOnly t
                                then ''Run without --dry-run to actually delete untracked branches.''
                                else ''Run without --dry-run to actually delete them.'')] t3, w, None)
                else
                  (let (confirmed, w1) = askConfirmation (confirmationMessage t) w
                   in if confirmed
                      then
                        (let t4 = emit Log [T ''''] t3;
                             branchesToDeleteCopy = branchesToDelete t;
                             totalToDelete = length (branchesToDelete t);
                             p = drive (deletion_call exec branchesToDeleteCopy)
                                   (deletion_settle branchesToDeleteCopy)
                                   (length branchesToDeleteCopy) pick
                                   (spawn (min DELETE_CONCURRENCY totalToDelete) w1
                                      \<lparr>deletedCount = 0, failedBranchesSync = [], logLines = []\<rparr>);
                             t5 = t4\<lparr>events := events t4 @ logLines (shared p)\<rparr>
                         in Inr (deletion_summary (shared p) t5, world p, Some p))
                      else Inr (emit Info [T ''Cancelled.''] t3, w1, None))))"


section \<open>Reference notions for the properties\<close>

subsection \<open>The classifier in the words of its description\<close>

text \<open>
  A line is split on its first run of white space into a name and an upstream remainder;
  it is tracked when the remainder is non-empty after trimming; the mode selects the
  tracked lines, the untracked lines, or all of them.
\<close>

definition spec_name :: "string \<Rightarrow> string" where
  "spec_name line = takeWhile (\<lambda>c. \<not> is_ws c) line"

definition spec_upstream :: "string \<Rightarrow> string" where
  "spec_upstream line = dropWhile is_ws (dropWhile (\<lambda>c. \<not> is_ws c) line)"

definition spec_tracked :: "string \<Rightarrow> bool" where
  "spec_tracked line = (trim (spec_upstream line) \<noteq> [])"

definition spec_selected :: "string \<Rightarrow> string \<Rightarrow> bool" where
  "spec_selected mode line =
     (mode = ''all'' \<or> (mode = ''tracked'' \<and> spec_tracked line)
      \<or> (mode = ''untracked'' \<and> \<not> spec_tracked line))"

definition spec_protected :: "string \<Rightarrow> string \<Rightarrow> bool" where
  "spec_protected current name = (name = ''main'' \<or> name = ''master'' \<or> name = current)"

definition spec_getBranches :: "string \<Rightarrow> string \<Rightarrow> string \<Rightarrow> string list" where
  "spec_getBranches mode current text =
     map spec_name
       (filter (\<lambda>line. \<not> spec_protected current (spec_name line) \<and> spec_selected mode line)
          (branchLines text))"

subsection \<open>Calls in index order\<close>

text \<open>
  The world after the calls for the indices below \<open>i\<close> have been made in index order,
  and what the call for index \<open>i\<close> then settles to.
\<close>

primrec world_at :: "(nat \<Rightarrow> 'w \<Rightarrow> settled \<times> 'w) \<Rightarrow> 'w \<Rightarrow> nat \<Rightarrow> 'w" where
  "world_at call w 0 = w"
| "world_at call w (Suc i) = snd (call i (world_at call w i))"

definition answer_at :: "(nat \<Rightarrow> 'w \<Rightarrow> settled \<times> 'w) \<Rightarrow> 'w \<Rightarrow> nat \<Rightarrow> settled" where
  "answer_at call w i = fst (call i (world_at call w i))"

text \<open>The indices whose calls are still awaited.\<close>

fun pending :: "wstate \<Rightarrow> nat list" where
  "pending (Awaiting i r) = [i]"
| "pending _ = []"

definition awaited :: "wstate list \<Rightarrow> nat list" where
  "awaited ws = concat (map pending ws)"

text \<open>
  What holds of a pool between two resumptions, for a pool started in world \<open>w0\<close> with
  shared variables \<open>s0\<close>: the calls made so far are those for the indices below the
  counter, in index order; every such index is either awaited by one worker or has been
  settled once, in some order \<open>cs\<close>; no worker has left while indices remained.
\<close>

definition pool_inv :: "(nat \<Rightarrow> 'w \<Rightarrow> settled \<times> 'w) \<Rightarrow> (nat \<Rightarrow> settled \<Rightarrow> 's \<Rightarrow> 's) \<Rightarrow> nat
    \<Rightarrow> 'w \<Rightarrow> 's \<Rightarrow> ('w, 's) pool \<Rightarrow> bool" where
  "pool_inv call settle totalUnits w0 s0 p =
     (nextIndex p \<le> totalUnits
      \<and> world p = world_at call w0 (nextIndex p)
      \<and> (\<exists>cs. mset cs + mset (awaited (workers p)) = mset [0..<nextIndex p]
               \<and> shared p = foldl (\<lambda>s i. settle i (answer_at call w0 i) s) s0 cs)
      \<and> (\<forall>i r. Awaiting i r \<in> set (workers p) \<longrightarrow> r = answer_at call w0 i)
      \<and> (Done \<in> set (workers p) \<longrightarrow> totalUnits \<le> nextIndex p))"

subsection \<open>Results expected for a branch\<close>

text \<open>The row for a branch whose status query settled to \<open>r\<close>.\<close>

definition expected_result :: "string \<Rightarrow> settled \<Rightarrow> pr_result" where
  "expected_result b r =
     (case r of
        Inl error \<Rightarrow> \<lparr>branch = b, icon = Warn, label = ''Error''\<rparr>
      | Inr prStatus \<Rightarrow>
          \<lparr>branch = b, icon = fst (status_entry prStatus), label = fst (snd (status_entry prStatus))\<rparr>)"

definition deletable :: "settled \<Rightarrow> bool" where
  "deletable r = (r = Inr (Some ''MERGED'') \<or> r = Inr (Some ''CLOSED''))"

text \<open>Whether a settled delete command counts as failed, and the line printed for it.\<close>

definition delete_failed :: "settled \<Rightarrow> bool" where
  "delete_failed r = (case r of Inr (Some result) \<Rightarrow> result = TIMEOUT_SENTINEL | _ \<Rightarrow> True)"

definition delete_line :: "string \<Rightarrow> settled \<Rightarrow> event" where
  "delete_line b r =
     (if r = Inr (Some TIMEOUT_SENTINEL)
      then (Log, [I Cross, T '' Failed to delete branch '', T b, T '' (timeout)''])
      else if delete_failed r then (Log, [I Cross, T '' Failed to delete branch '', T b])
      else (Log, [I Check, T '' Deleted branch '', T b]))"

text \<open>The lines of the final status, for a count of deleted branches and the failed ones.\<close>

definition summary_lines :: "nat \<Rightarrow> string list \<Rightarrow> event list" where
  "summary_lines k failed =
     (if failed = [] then [(Success, [T ''Successfully deleted '', N k, T '' branches''])]
      else (Warning, [T ''Deleted '', N k, T '' branches, '', N (length failed), T '' failed''])
           # map (\<lambda>b. (Log, [T ''  Failed: '', T b])) failed)"

subsection \<open>Recording the calls\<close>

text \<open>A method together with a record of the arguments of its calls, kept in the world.\<close>

definition recording :: "'w exec \<Rightarrow> ('w \<times> (string \<times> options) list) exec" where
  "recording exec command opts wl =
     (let (r, w') = exec command opts (fst wl) in (r, (w', snd wl @ [(command, opts)])))"

definition noting :: "'w query \<Rightarrow> ('w \<times> string list) query" where
  "noting query b wl = (let (r, w') = query b (fst wl) in (r, (w', snd wl @ [b])))"

subsection \<open>Concrete inputs\<close>

text \<open>The tool as its constructor leaves it.\<close>

definition new_tool :: tool where
  "new_tool = \<lparr>dryRun = False, verbose = False, untrackedOnly = False, branchesToDelete = [],
     prResults = [], currentBranch = [], events = []\<rparr>"

text \<open>
  Replacements for the methods, as a test would install them: a world that is the list of
  the answers still to be given, one per call; a fixed list of tracked branches; a fixed
  answer to the confirmation prompt; a child process that always gives the same outcome.
\<close>

definition queued_exec :: "(settled list) exec" where
  "queued_exec command opts w = (case w of [] \<Rightarrow> (Inr None, []) | r # rs \<Rightarrow> (r, rs))"

definition queued_query :: "(settled list) query" where
  "queued_query b w = (case w of [] \<Rightarrow> (Inr None, []) | r # rs \<Rightarrow> (r, rs))"

definition fixed_tracked :: "string list \<Rightarrow> tool \<Rightarrow> 'w \<Rightarrow> string list \<times> tool \<times> 'w" where
  "fixed_tracked bs t w = (bs, t, w)"

definition fixed_answer :: "bool \<Rightarrow> string \<Rightarrow> 'w \<Rightarrow> bool \<times> 'w" where
  "fixed_answer a question w = (a, w)"

definition fixed_execSync :: "exec_outcome \<Rightarrow> unit execSync" where
  "fixed_execSync outcome command opts w = (outcome, w)"

definition fixed_exec :: "settled \<Rightarrow> unit exec" where
  "fixed_exec r command opts w = (r, w)"

text \<open>Two ways of choosing the worker to resume: always the first, always the last.\<close>

definition pick_first :: "('w, 's) pool \<Rightarrow> nat" where
  "pick_first p = 0"

definition pick_last :: "('w, 's) pool \<Rightarrow> nat" where
  "pick_last p = length (workers p) - 1"

text \<open>
  A third: resume a \<open>Ready\<close> worker while there is one, otherwise the last worker; with it
  all calls are made before any is settled, and they settle out of input order.
\<close>

definition pick_eager :: "('w, 's) pool \<Rightarrow> nat" where
  "pick_eager p =
     (let k = length (takeWhile (\<lambda>s. s \<noteq> Ready) (workers p))
      in if k < length (workers p) then k else length (workers p) - 1)"

definition timeout_error :: exec_error where
  "timeout_error = \<lparr>code = Some ''ETIMEDOUT'', signal = None, message = ''spawnSync ETIMEDOUT''\<rparr>"

definition plain_error :: exec_error where
  "plain_error = \<lparr>code = None, signal = None, message = ''Command failed''\<rparr>"

text \<open>The listing of the example scenario.\<close>

definition example_listing :: string where
  "example_listing =
     ''feature1    origin/feature1\<newline>feature2  upstream/feature2\<newline>main origin/main''"

text \<open>A listing with an untracked branch, and one in which a name occurs twice.\<close>

definition mixed_listing :: string where
  "mixed_listing = ''feature1 origin/feature1\<newline>local\<newline>main origin/main''"

definition dup_listing :: string where
  "dup_listing = ''foo origin/foo\<newline>foo''"

section \<open>Strings and lines\<close>

lemma trim_eq_Nil_iff: "trim s = [] \<longleftrightarrow> (\<forall>c\<in>set s. is_ws c)"
proof
  assume "trim s = []"
  then have a: "\<forall>c\<in>set (dropWhile is_ws s). is_ws c"
    by (simp add: trim_def)
  show "\<forall>c\<in>set s. is_ws c"
  proof (cases "dropWhile is_ws s")
    case Nil
    then show ?thesis by simp
  next
    case (Cons d ds)
    then have "\<not> is_ws d" using hd_dropWhile [of is_ws s] by simp
    moreover have "d \<in> set (dropWhile is_ws s)" using Cons by simp
    ultimately show ?thesis using a by blast
  qed
next
  assume "\<forall>c\<in>set s. is_ws c"
  then show "trim s = []" by (auto simp: trim_def dest: set_dropWhileD)
qed

lemma trim_last: "trim s \<noteq> [] \<Longrightarrow> \<not> is_ws (last (trim s))"
proof -
  assume a: "trim s \<noteq> []"
  let ?r = "rev (dropWhile is_ws s)"
  from a have ne: "dropWhile is_ws ?r \<noteq> []" by (simp add: trim_def)
  have "last (trim s) = hd (dropWhile is_ws ?r)"
    by (simp add: trim_def last_rev)
  with ne show ?thesis using hd_dropWhile [of is_ws ?r] by simp
qed

lemma trim_hd: "trim s \<noteq> [] \<Longrightarrow> \<not> is_ws (hd (trim s))"
proof -
  assume a: "trim s \<noteq> []"
  let ?d = "dropWhile is_ws s"
  from a have ne: "?d \<noteq> []" by (auto simp: trim_def dest: set_dropWhileD)
  then have h: "\<not> is_ws (hd ?d)" using hd_dropWhile [of is_ws s] by simp
  have "hd ?d \<in> set (rev ?d)" using ne by simp
  then have "last (dropWhile is_ws (rev ?d)) = last (rev ?d)"
    using h by (rule dropWhile_last)
  then have "hd (trim s) = hd ?d"
    by (simp add: trim_def hd_rev last_rev)
  with h show ?thesis by simp
qed

lemma split_ws_prefix:
  "\<forall>c\<in>set a. \<not> is_ws c \<Longrightarrow> split_ws (a @ b) = (let (w, ws) = split_ws b in (a @ w, ws))"
  by (induction a) (auto split: prod.splits)

text \<open>
  On a trimmed, non-empty line the first piece is the text before the first white space,
  and the joined rest is non-empty exactly when there is white space in the line.
\<close>

lemma split_ws_line:
  assumes "l \<noteq> []" "\<not> is_ws (hd l)" "\<not> is_ws (last l)"
  shows "fst (split_ws l) = takeWhile (\<lambda>c. \<not> is_ws c) l
     \<and> ((join '' '' (snd (split_ws l)) \<noteq> [] \<and> trim (join '' '' (snd (split_ws l))) \<noteq> [])
         = (dropWhile (\<lambda>c. \<not> is_ws c) l \<noteq> []))"
proof -
  let ?name = "takeWhile (\<lambda>c. \<not> is_ws c) l"
  let ?rest = "dropWhile (\<lambda>c. \<not> is_ws c) l"
  have l: "l = ?name @ ?rest" by simp
  have nm: "\<forall>c\<in>set ?name. \<not> is_ws c" by (auto dest: set_takeWhileD)
  have sp: "split_ws l = (let (w, ws) = split_ws ?rest in (?name @ w, ws))"
    using split_ws_prefix [OF nm, of ?rest] by simp
  show ?thesis
  proof (cases ?rest)
    case Nil
    then have "split_ws l = (?name, [])" using sp by (simp del: dropWhile_eq_Nil_conv)
    then show ?thesis using Nil by (simp del: dropWhile_eq_Nil_conv)
  next
    case (Cons c cs)
    then have c: "is_ws c" using hd_dropWhile [of "\<lambda>c. \<not> is_ws c" l] by auto
    have "last l = last ?rest" using l Cons by (metis last_appendR list.distinct(1))
    then have lastcs: "cs \<noteq> [] \<and> \<not> is_ws (last cs)"
      using assms(3) Cons c by (auto split: if_splits)
    then have "last cs \<in> set cs" by simp
    then have dne: "dropWhile is_ws cs \<noteq> []" using lastcs by (auto simp: dropWhile_eq_Nil_conv)
    then obtain d ds where d: "dropWhile is_ws cs = d # ds"
      by (cases "dropWhile is_ws cs") auto
    then have dn: "\<not> is_ws d" using hd_dropWhile [of is_ws cs] by auto
    obtain w ws where w: "split_ws ds = (w, ws)" by (cases "split_ws ds") auto
    have r: "split_ws ?rest = ([], (d # w) # ws)" using Cons c d dn w by simp
    have j: "join '' '' ((d # w) # ws)
        = d # (w @ (case ws of [] \<Rightarrow> [] | _ \<Rightarrow> '' '' @ join '' '' ws))"
      by (cases ws) auto
    have tne: "trim (join '' '' ((d # w) # ws)) \<noteq> []"
      unfolding j trim_eq_Nil_iff using dn by auto
    have jne: "join '' '' ((d # w) # ws) \<noteq> []"
      unfolding j by simp
    have "split_ws l = (?name, (d # w) # ws)" using sp r by simp
    then show ?thesis using tne jne Cons by simp
  qed
qed

lemma spec_tracked_line:
  assumes "l \<noteq> []" "\<not> is_ws (last l)"
  shows "spec_tracked l = (dropWhile (\<lambda>c. \<not> is_ws c) l \<noteq> [])"
proof (cases "dropWhile (\<lambda>c. \<not> is_ws c) l")
  case Nil
  show ?thesis unfolding spec_tracked_def spec_upstream_def Nil by (simp add: trim_def)
next
  case (Cons c cs)
  let ?rest = "dropWhile (\<lambda>c. \<not> is_ws c) l"
  have "l = takeWhile (\<lambda>c. \<not> is_ws c) l @ ?rest" by simp
  then have "last l = last ?rest" using Cons by (metis last_appendR list.distinct(1))
  then have nl: "\<not> is_ws (last ?rest)" using assms(2) by simp
  have "last ?rest \<in> set ?rest" using Cons by simp
  then have "last (dropWhile is_ws ?rest) = last ?rest \<and> dropWhile is_ws ?rest \<noteq> []"
    using nl by (auto simp: dropWhile_last dropWhile_eq_Nil_conv)
  then have "\<exists>x\<in>set (dropWhile is_ws ?rest). \<not> is_ws x"
    using nl by (metis last_in_set)
  then have "trim (dropWhile is_ws ?rest) \<noteq> []"
    by (simp add: trim_eq_Nil_iff)
  then show ?thesis using Cons by (simp add: spec_tracked_def spec_upstream_def)
qed

lemma branchLines_trimmed:
  "l \<in> set (branchLines text) \<Longrightarrow> l \<noteq> [] \<and> \<not> is_ws (hd l) \<and> \<not> is_ws (last l)"
  by (auto simp: branchLines_def trim_hd trim_last split: prod.splits if_splits)

lemma foldl_getBranches_line:
  "foldl (getBranches_line mode cur) acc ls = acc @ concat (map (getBranches_line mode cur []) ls)"
proof (induction ls arbitrary: acc)
  case Nil
  then show ?case by simp
next
  case (Cons l ls)
  have "getBranches_line mode cur acc l = acc @ getBranches_line mode cur [] l"
    by (simp add: getBranches_line_def Let_def split: prod.splits)
  then show ?case
    using Cons.IH [of "acc @ getBranches_line mode cur [] l"]
      Cons.IH [of "getBranches_line mode cur [] l"] by simp
qed

text \<open>What the loop body adds for one trimmed line.\<close>

lemma getBranches_line_spec:
  assumes "l \<noteq> []" "\<not> is_ws (hd l)" "\<not> is_ws (last l)"
  shows "getBranches_line mode cur [] l
     = (if \<not> spec_protected cur (spec_name l) \<and> spec_selected mode l then [spec_name l] else [])"
proof -
  obtain name rest where sp: "split_ws l = (name, rest)" by (cases "split_ws l") auto
  from split_ws_line [OF assms] sp
  have name: "name = spec_name l"
    and tr: "(join '' '' rest \<noteq> [] \<and> trim (join '' '' rest) \<noteq> []) = spec_tracked l"
    using spec_tracked_line [OF assms(1) assms(3)] by (simp_all add: spec_name_def)
  show ?thesis
    unfolding getBranches_line_def sp Let_def prod.case spec_selected_def spec_protected_def
    using name tr by auto
qed

lemma concat_map_if:
  "concat (map (\<lambda>x. if P x then [f x] else []) xs) = map f (filter P xs)"
  by (induction xs) auto

lemma collect_spec:
  "foldl (getBranches_line mode cur) [] (branchLines text) = spec_getBranches mode cur text"
proof -
  have "map (getBranches_line mode cur []) (branchLines text)
      = map (\<lambda>l. if \<not> spec_protected cur (spec_name l) \<and> spec_selected mode l
                 then [spec_name l] else []) (branchLines text)"
    by (rule map_cong [OF refl]) (use branchLines_trimmed getBranches_line_spec in blast)
  then have "concat (map (getBranches_line mode cur []) (branchLines text))
      = concat (map (\<lambda>l. if \<not> spec_protected cur (spec_name l) \<and> spec_selected mode l
                 then [spec_name l] else []) (branchLines text))"
    by (rule arg_cong)
  also have "\<dots> = spec_getBranches mode cur text"
    unfolding spec_getBranches_def by (rule concat_map_if)
  finally show ?thesis
    by (simp add: foldl_getBranches_line)
qed

lemma getBranches_cases:
  "fst (getBranches mode exec t w) = []
   \<or> (\<exists>text. fst (getBranches mode exec t w) = spec_getBranches mode (currentBranch t) text)"
  by (auto simp: getBranches_def collect_spec split: prod.splits sum.splits option.splits)

lemma spec_getBranches_not_protected:
  "b \<in> set (spec_getBranches mode cur text) \<Longrightarrow> \<not> spec_protected cur b"
  by (auto simp: spec_getBranches_def)

section \<open>Command executor: properties\<close>

text \<open>What \<open>execCommand\<close> does when \<open>execSync\<close> hands back \<open>null\<close>.\<close>

lemma execCommand_null_return:
  "execSync command (exec_options_of opts) w = (ReturnedNull, w') \<Longrightarrow>
     execCommand execSync command opts w
       = (if silent opts = Some True then Inr None else Inl null_trim_error, w')"
  by (simp add: execCommand_def execCommand_catch_def truthy_bool_def is_timeout_def
      null_trim_error_def)

text \<open>
  C5, as amended. Whenever \<open>execSync\<close> returns a string, \<open>execCommand\<close> returns it
  trimmed; \<open>execSync\<close> is called with \<open>stdio\<close> \<open>pipe\<close> exactly when \<open>silent\<close> is set, so
  under Node this is the outcome of a successful command when \<open>silent\<close> is set. When
  \<open>execSync\<close> throws and \<open>silent\<close> is set, the result is the string \<open>__TIMEOUT__\<close>
  exactly when the error has code \<open>ETIMEDOUT\<close> or signal \<open>SIGTERM\<close>, and \<open>null\<close>
  otherwise. When \<open>execSync\<close> throws and \<open>silent\<close> is not set, the error object that
  \<open>execSync\<close> threw is thrown on as it is. The sentinel is an ordinary string: a command
  whose trimmed output is \<open>__TIMEOUT__\<close> gives the result of a timeout. Nothing is said
  of a successful command when \<open>silent\<close> is not set.
\<close>

theorem execCommand_outcomes:
  "(\<forall>out w'. execSync command (exec_options_of opts) w = (Returned out, w')
       \<longrightarrow> execCommand execSync command opts w = (Inr (Some (trim out)), w'))
   \<and> stdio (exec_options_of opts) = (if silent opts = Some True then Pipe else Inherit)
   \<and> (\<forall>out w'. child command (exec_options_of opts) w = (Returned out, w') \<and> silent opts = Some True
       \<longrightarrow> execCommand (node_execSync child) command opts w = (Inr (Some (trim out)), w'))
   \<and> (\<forall>e w'. execSync command (exec_options_of opts) w = (Threw e, w') \<and> silent opts = Some True
       \<longrightarrow> (\<exists>r. execCommand execSync command opts w = (Inr r, w')
              \<and> (r = Some ''__TIMEOUT__'' \<or> r = None)
              \<and> (r = Some ''__TIMEOUT__''
                    \<longleftrightarrow> code e = Some ''ETIMEDOUT'' \<or> signal e = Some ''SIGTERM'')))
   \<and> (\<forall>e w'. execSync command (exec_options_of opts) w = (Threw e, w') \<and> silent opts \<noteq> Some True
       \<longrightarrow> execCommand execSync command opts w = (Inl e, w'))
   \<and> (\<forall>out w'. execSync command (exec_options_of opts) w = (Returned out, w')
         \<and> trim out = ''__TIMEOUT__''
       \<longrightarrow> execCommand execSync command opts w = (Inr (Some ''__TIMEOUT__''), w'))"
  by (auto simp: execCommand_def execCommand_catch_def node_execSync_def exec_options_of_def
      truthy_bool_def is_timeout_def TIMEOUT_SENTINEL_def)

theorem execCommand_outcomes_witness:
  "execCommand (node_execSync (fixed_execSync (Returned ''  MERGED '')))
       ''gh'' \<lparr>silent = Some True, timeout = None\<rparr> () = (Inr (Some ''MERGED''), ())
   \<and> execCommand (fixed_execSync (Threw timeout_error))
       ''gh'' \<lparr>silent = Some True, timeout = None\<rparr> () = (Inr (Some ''__TIMEOUT__''), ())
   \<and> execCommand (fixed_execSync (Threw plain_error))
       ''gh'' \<lparr>silent = Some True, timeout = None\<rparr> () = (Inr None, ())
   \<and> execCommand (fixed_execSync (Threw plain_error))
       ''gh'' \<lparr>silent = None, timeout = None\<rparr> () = (Inl plain_error, ())
   \<and> execCommand (fixed_execSync (Returned ''__TIMEOUT__\<newline>''))
       ''gh'' \<lparr>silent = Some True, timeout = None\<rparr> () = (Inr (Some ''__TIMEOUT__''), ())"
proof -
  let ?s = "\<lparr>silent = Some True, timeout = None\<rparr>"
  let ?n = "\<lparr>silent = None, timeout = None\<rparr>"
  have tr: "trim ''  MERGED '' = ''MERGED''"
    by (simp add: trim_def is_ws_def)
  have ts: "trim ''__TIMEOUT__\<newline>'' = ''__TIMEOUT__''"
    by (simp add: trim_def is_ws_def)
  have a: "fixed_execSync (Returned ''  MERGED '') ''gh'' (exec_options_of ?s) ()
      = (Returned ''  MERGED '', ()) \<and> silent ?s = Some True"
    by (simp add: fixed_execSync_def)
  have b: "fixed_execSync (Threw timeout_error) ''gh'' (exec_options_of ?s) ()
      = (Threw timeout_error, ()) \<and> silent ?s = Some True"
    by (simp add: fixed_execSync_def)
  have c: "fixed_execSync (Threw plain_error) ''gh'' (exec_options_of ?s) ()
      = (Threw plain_error, ()) \<and> silent ?s = Some True"
    by (simp add: fixed_execSync_def)
  have d: "fixed_execSync (Threw plain_error) ''gh'' (exec_options_of ?n) ()
      = (Threw plain_error, ()) \<and> silent ?n \<noteq> Some True"
    by (simp add: fixed_execSync_def)
  have e: "fixed_execSync (Returned ''__TIMEOUT__\<newline>'') ''gh'' (exec_options_of ?s) ()
      = (Returned ''__TIMEOUT__\<newline>'', ()) \<and> trim ''__TIMEOUT__\<newline>'' = ''__TIMEOUT__''"
    using ts by (simp add: fixed_execSync_def)
  note i1 = execCommand_outcomes [where child = "fixed_execSync (Returned ''  MERGED '')"
      and command = "''gh''" and opts = ?s and w = "()"]
  note i2 = execCommand_outcomes [where execSync = "fixed_execSync (Threw timeout_error)"
      and command = "''gh''" and opts = ?s and w = "()"]
  note i3 = execCommand_outcomes [where execSync = "fixed_execSync (Threw plain_error)"
      and command = "''gh''" and opts = ?s and w = "()"]
  note i4 = execCommand_outcomes [where execSync = "fixed_execSync (Threw plain_error)"
      and command = "''gh''" and opts = ?n and w = "()"]
  note i5 = execCommand_outcomes [where execSync = "fixed_execSync (Returned ''__TIMEOUT__\<newline>'')"
      and command = "''gh''" and opts = ?s and w = "()"]
  have "execCommand (node_execSync (fixed_execSync (Returned ''  MERGED ''))) ''gh'' ?s ()
      = (Inr (Some (trim ''  MERGED '')), ())"
    by (rule conjunct1 [OF conjunct2 [OF conjunct2 [OF i1]], rule_format, OF a])
  then have 1: "execCommand (node_execSync (fixed_execSync (Returned ''  MERGED ''))) ''gh'' ?s ()
      = (Inr (Some ''MERGED''), ())"
    by (simp only: tr)
  from conjunct1 [OF conjunct2 [OF conjunct2 [OF conjunct2 [OF i2]]], rule_format, OF b]
  have 2: "execCommand (fixed_execSync (Threw timeout_error)) ''gh'' ?s ()
      = (Inr (Some ''__TIMEOUT__''), ())"
    by (auto simp: timeout_error_def)
  from conjunct1 [OF conjunct2 [OF conjunct2 [OF conjunct2 [OF i3]]], rule_format, OF c]
  have 3: "execCommand (fixed_execSync (Threw plain_error)) ''gh'' ?s () = (Inr None, ())"
    by (auto simp: plain_error_def)
  have 4: "execCommand (fixed_execSync (Threw plain_error)) ''gh'' ?n () = (Inl plain_error, ())"
    by (rule conjunct1 [OF conjunct2 [OF conjunct2 [OF conjunct2 [OF conjunct2 [OF i4]]]],
          rule_format, OF d])
  have 5: "execCommand (fixed_execSync (Returned ''__TIMEOUT__\<newline>'')) ''gh'' ?s ()
      = (Inr (Some ''__TIMEOUT__''), ())"
    by (rule conjunct2 [OF conjunct2 [OF conjunct2 [OF conjunct2 [OF conjunct2 [OF i5]]]],
          rule_format, OF e])
  show ?thesis
    by (rule conjI [OF 1 conjI [OF 2 conjI [OF 3 conjI [OF 4 5]]]])
qed

text \<open>
  As stated, C5 fails in two places. The sentinel is not distinct from a command's
  output: with \<open>silent\<close> set, a command that prints \<open>__TIMEOUT__\<close> and one that timed
  out give the same result. And the outcome is not the trimmed output for every options:
  without \<open>silent\<close> the output is inherited, not captured, \<open>execSync\<close> returns \<open>null\<close>,
  and a successful command ends in the \<open>TypeError\<close> of \<open>result.trim()\<close> being thrown.
\<close>

theorem execCommand_outcomes_counterexample:
  "execCommand (node_execSync (fixed_execSync (Returned ''__TIMEOUT__\<newline>''))) ''git status''
       \<lparr>silent = Some True, timeout = None\<rparr> ()
     = execCommand (node_execSync (fixed_execSync (Threw timeout_error))) ''git status''
         \<lparr>silent = Some True, timeout = None\<rparr> ()
   \<and> execCommand (node_execSync (fixed_execSync (Returned ''On branch main\<newline>''))) ''git status''
       \<lparr>silent = None, timeout = None\<rparr> ()
     = (Inl null_trim_error, ())"
proof -
  have ts: "trim ''__TIMEOUT__\<newline>'' = ''__TIMEOUT__''"
    by (simp add: trim_def is_ws_def)
  have a: "execCommand (node_execSync (fixed_execSync (Returned ''__TIMEOUT__\<newline>''))) ''git status''
       \<lparr>silent = Some True, timeout = None\<rparr> () = (Inr (Some ''__TIMEOUT__''), ())"
    by (simp add: execCommand_def node_execSync_def fixed_execSync_def exec_options_of_def
        truthy_bool_def ts)
  have b: "execCommand (node_execSync (fixed_execSync (Threw timeout_error))) ''git status''
       \<lparr>silent = Some True, timeout = None\<rparr> () = (Inr (Some ''__TIMEOUT__''), ())"
    by (simp add: execCommand_def execCommand_catch_def node_execSync_def fixed_execSync_def
        truthy_bool_def is_timeout_def timeout_error_def TIMEOUT_SENTINEL_def)
  have c: "execCommand (node_execSync (fixed_execSync (Returned ''On branch main\<newline>''))) ''git status''
       \<lparr>silent = None, timeout = None\<rparr> () = (Inl null_trim_error, ())"
    by (simp add: execCommand_def execCommand_catch_def node_execSync_def fixed_execSync_def
        exec_options_of_def truthy_bool_def)
  show ?thesis
    unfolding a b using c by simp
qed


section \<open>Branch classifier: properties\<close>

text \<open>
  C6, as amended. When the listing command gives a text other than the string
  \<open>__TIMEOUT__\<close>, \<open>getBranches\<close> returns what the description says: of the non-empty
  lines, trimmed and in input order, the names (the text before the first run of white
  space) of those whose name is not \<open>main\<close>, \<open>master\<close> or the current branch and which
  the mode selects, a line being tracked exactly when its upstream remainder is non-empty
  after trimming. Whatever the listing command gives, no returned name is \<open>main\<close>,
  \<open>master\<close> or the current branch.
\<close>

theorem getBranches_classifies:
  "(\<forall>b\<in>set (fst (getBranches mode exec t w)).
       b \<noteq> ''main'' \<and> b \<noteq> ''master'' \<and> b \<noteq> currentBranch t)
   \<and> (\<forall>text w'. exec LIST_COMMAND \<lparr>silent = Some True, timeout = None\<rparr> w = (Inr (Some text), w')
         \<and> text \<noteq> TIMEOUT_SENTINEL
       \<longrightarrow> getBranches mode exec t w = (spec_getBranches mode (currentBranch t) text, t, w'))"
proof
  show "\<forall>b\<in>set (fst (getBranches mode exec t w)).
       b \<noteq> ''main'' \<and> b \<noteq> ''master'' \<and> b \<noteq> currentBranch t"
    using getBranches_cases [of mode exec t w] spec_getBranches_not_protected
    by (fastforce simp: spec_protected_def)
next
  show "\<forall>text w'. exec LIST_COMMAND \<lparr>silent = Some True, timeout = None\<rparr> w = (Inr (Some text), w')
         \<and> text \<noteq> TIMEOUT_SENTINEL
       \<longrightarrow> getBranches mode exec t w = (spec_getBranches mode (currentBranch t) text, t, w')"
    by (simp add: getBranches_def collect_spec)
qed

theorem getBranches_classifies_witness:
  "fixed_exec (Inr (Some example_listing)) LIST_COMMAND \<lparr>silent = Some True, timeout = None\<rparr> ()
     = (Inr (Some example_listing), ())
   \<and> example_listing \<noteq> TIMEOUT_SENTINEL
   \<and> getBranches ''tracked'' (fixed_exec (Inr (Some example_listing)))
        (new_tool\<lparr>currentBranch := ''main''\<rparr>) ()
     = ([''feature1'', ''feature2''], new_tool\<lparr>currentBranch := ''main''\<rparr>, ())
   \<and> ''main'' \<notin> set (fst (getBranches ''tracked'' (fixed_exec (Inr (Some example_listing)))
        (new_tool\<lparr>currentBranch := ''main''\<rparr>) ()))"
proof -
  let ?t = "new_tool\<lparr>currentBranch := ''main''\<rparr>"
  let ?e = "fixed_exec (Inr (Some example_listing))"
  note inst = getBranches_classifies [of "''tracked''" ?e ?t "()"]
  have h1: "?e LIST_COMMAND \<lparr>silent = Some True, timeout = None\<rparr> () = (Inr (Some example_listing), ())"
    by (simp add: fixed_exec_def)
  have h2: "example_listing \<noteq> TIMEOUT_SENTINEL"
    by (simp add: example_listing_def TIMEOUT_SENTINEL_def)
  have cur: "currentBranch ?t = ''main''" by simp
  have v: "spec_getBranches ''tracked'' ''main'' example_listing = [''feature1'', ''feature2'']"
    by code_simp
  have "getBranches ''tracked'' ?e ?t ()
      = (spec_getBranches ''tracked'' (currentBranch ?t) example_listing, ?t, ())"
    by (rule conjunct2 [OF inst, rule_format, OF conjI [OF h1 h2]])
  then have g: "getBranches ''tracked'' ?e ?t () = ([''feature1'', ''feature2''], ?t, ())"
    by (simp only: cur v)
  have "\<forall>b\<in>set (fst (getBranches ''tracked'' ?e ?t ())).
      b \<noteq> ''main'' \<and> b \<noteq> ''master'' \<and> b \<noteq> currentBranch ?t"
    by (rule conjunct1 [OF inst])
  then have p: "''main'' \<notin> set (fst (getBranches ''tracked'' ?e ?t ()))"
    by blast
  show ?thesis
    by (rule conjI [OF h1 conjI [OF h2 conjI [OF g p]]])
qed

text \<open>
  As stated, for every listing text, C6 fails on the one text that is the timeout
  sentinel: a repository whose only branch is called \<open>__TIMEOUT__\<close> and has no upstream
  is listed as that text, and \<open>getBranches\<close> takes it for a timed-out listing, where
  the description would return the name.
\<close>

theorem getBranches_classifies_counterexample:
  "execCommand (fixed_execSync (Returned ''__TIMEOUT__\<newline>'')) LIST_COMMAND
       \<lparr>silent = Some True, timeout = None\<rparr> () = (Inr (Some ''__TIMEOUT__''), ())
   \<and> getBranches ''all'' (execCommand (fixed_execSync (Returned ''__TIMEOUT__\<newline>''))) new_tool ()
       = ([], emit Error [T ''Failed to get '', T ''all'', T '' branches (timeout)''] new_tool, ())
   \<and> spec_getBranches ''all'' (currentBranch new_tool) ''__TIMEOUT__'' = [''__TIMEOUT__'']"
proof -
  have tr: "trim ''__TIMEOUT__\<newline>'' = ''__TIMEOUT__''"
    by (simp add: trim_def is_ws_def)
  have a: "execCommand (fixed_execSync (Returned ''__TIMEOUT__\<newline>'')) LIST_COMMAND
       \<lparr>silent = Some True, timeout = None\<rparr> () = (Inr (Some ''__TIMEOUT__''), ())"
    by (simp add: execCommand_def execCommand_catch_def fixed_execSync_def tr)
  have b: "getBranches ''all'' (execCommand (fixed_execSync (Returned ''__TIMEOUT__\<newline>''))) new_tool ()
       = ([], emit Error [T ''Failed to get '', T ''all'', T '' branches (timeout)''] new_tool, ())"
    unfolding getBranches_def a by (simp add: TIMEOUT_SENTINEL_def)
  have c: "spec_getBranches ''all'' (currentBranch new_tool) ''__TIMEOUT__'' = [''__TIMEOUT__'']"
    by code_simp
  show ?thesis
    by (rule conjI [OF a conjI [OF b c]])
qed

text \<open>
  C7. When the listing command gives \<open>null\<close>, gives the timeout sentinel or throws,
  \<open>getBranches\<close> prints one error line that names the mode (with \<open>(timeout)\<close> for the
  sentinel) and returns the empty array; it has no way of throwing. With \<open>execCommand\<close>
  itself as the method, this is what happens whenever the child process fails.
\<close>

theorem getBranches_fail_soft:
  "(\<forall>w'. exec LIST_COMMAND \<lparr>silent = Some True, timeout = None\<rparr> w = (Inr (Some TIMEOUT_SENTINEL), w')
       \<longrightarrow> getBranches mode exec t w
            = ([], emit Error [T ''Failed to get '', T mode, T '' branches (timeout)''] t, w'))
   \<and> (\<forall>w'. exec LIST_COMMAND \<lparr>silent = Some True, timeout = None\<rparr> w = (Inr None, w')
       \<longrightarrow> getBranches mode exec t w
            = ([], emit Error [T ''Failed to get '', T mode, T '' branches''] t, w'))
   \<and> (\<forall>e w'. exec LIST_COMMAND \<lparr>silent = Some True, timeout = None\<rparr> w = (Inl e, w')
       \<longrightarrow> getBranches mode exec t w
            = ([], emit Error [T ''Failed to get '', T mode, T '' branches''] t, w'))
   \<and> (\<forall>e w'. execSync LIST_COMMAND (exec_options_of \<lparr>silent = Some True, timeout = None\<rparr>) w
                = (Threw e, w')
       \<longrightarrow> getBranches mode (execCommand execSync) t w
            = ([], emit Error [T ''Failed to get '', T mode,
                               T (if is_timeout e then '' branches (timeout)'' else '' branches'')] t,
               w'))"
  by (auto simp: getBranches_def execCommand_def execCommand_catch_def truthy_bool_def)

theorem getBranches_fail_soft_witness:
  "getBranches ''tracked'' (fixed_exec (Inr (Some ''__TIMEOUT__''))) new_tool ()
     = ([], emit Error [T ''Failed to get '', T ''tracked'', T '' branches (timeout)''] new_tool, ())
   \<and> getBranches ''all'' (fixed_exec (Inr None)) new_tool ()
     = ([], emit Error [T ''Failed to get '', T ''all'', T '' branches''] new_tool, ())
   \<and> getBranches ''all'' (fixed_exec (Inl plain_error)) new_tool ()
     = ([], emit Error [T ''Failed to get '', T ''all'', T '' branches''] new_tool, ())
   \<and> getBranches ''untracked'' (execCommand (fixed_execSync (Threw timeout_error))) new_tool ()
     = ([], emit Error [T ''Failed to get '', T ''untracked'', T '' branches (timeout)''] new_tool, ())"
proof -
  let ?o = "\<lparr>silent = Some True, timeout = None\<rparr>"
  have a: "fixed_exec (Inr (Some ''__TIMEOUT__'')) LIST_COMMAND ?o ()
      = (Inr (Some TIMEOUT_SENTINEL), ())"
    by (simp add: fixed_exec_def TIMEOUT_SENTINEL_def)
  have b: "fixed_exec (Inr None) LIST_COMMAND ?o () = (Inr None, ())"
    by (simp add: fixed_exec_def)
  have c: "fixed_exec (Inl plain_error) LIST_COMMAND ?o () = (Inl plain_error, ())"
    by (simp add: fixed_exec_def)
  have d: "fixed_execSync (Threw timeout_error) LIST_COMMAND (exec_options_of ?o) ()
      = (Threw timeout_error, ())"
    by (simp add: fixed_execSync_def)
  have e: "is_timeout timeout_error"
    by (simp add: is_timeout_def timeout_error_def)
  note i1 = getBranches_fail_soft [of "fixed_exec (Inr (Some ''__TIMEOUT__''))" "()" "''tracked''" new_tool]
  note i2 = getBranches_fail_soft [of "fixed_exec (Inr None)" "()" "''all''" new_tool]
  note i3 = getBranches_fail_soft [of "fixed_exec (Inl plain_error)" "()" "''all''" new_tool]
  note i4 = getBranches_fail_soft [of _ "()" "''untracked''" new_tool
      "fixed_execSync (Threw timeout_error)"]
  have 1: "getBranches ''tracked'' (fixed_exec (Inr (Some ''__TIMEOUT__''))) new_tool ()
     = ([], emit Error [T ''Failed to get '', T ''tracked'', T '' branches (timeout)''] new_tool, ())"
    by (rule conjunct1 [OF i1, rule_format, OF a])
  have 2: "getBranches ''all'' (fixed_exec (Inr None)) new_tool ()
     = ([], emit Error [T ''Failed to get '', T ''all'', T '' branches''] new_tool, ())"
    by (rule conjunct1 [OF conjunct2 [OF i2], rule_format, OF b])
  have 3: "getBranches ''all'' (fixed_exec (Inl plain_error)) new_tool ()
     = ([], emit Error [T ''Failed to get '', T ''all'', T '' branches''] new_tool, ())"
    by (rule conjunct1 [OF conjunct2 [OF conjunct2 [OF i3]], rule_format, OF c])
  have "getBranches ''untracked'' (execCommand (fixed_execSync (Threw timeout_error))) new_tool ()
     = ([], emit Error [T ''Failed to get '', T ''untracked'',
          T (if is_timeout timeout_error then '' branches (timeout)'' else '' branches'')] new_tool, ())"
    by (rule conjunct2 [OF conjunct2 [OF conjunct2 [OF i4]], rule_format, OF d])
  then have 4: "getBranches ''untracked'' (execCommand (fixed_execSync (Threw timeout_error))) new_tool ()
     = ([], emit Error [T ''Failed to get '', T ''untracked'', T '' branches (timeout)''] new_tool, ())"
    by (simp only: e if_True)
  show ?thesis
    by (rule conjI [OF 1 conjI [OF 2 conjI [OF 3 4]]])
qed

lemma filter_mask:
  "map f (filter P xs) = map fst (filter snd (zip (map f xs) (map P xs)))"
  by (induction xs) auto

lemma filter_mask_not:
  "map f (filter (\<lambda>x. \<not> P x) xs) = map fst (filter (\<lambda>x. \<not> snd x) (zip (map f xs) (map P xs)))"
  by (induction xs) auto

lemma mset_map_filter_split:
  "mset (map f xs) = mset (map f (filter P xs)) + mset (map f (filter (\<lambda>x. \<not> P x) xs))"
  by (induction xs) auto

lemma distinct_map_filter_disjoint:
  "distinct (map f xs) \<Longrightarrow> set (map f (filter P xs)) \<inter> set (map f (filter (\<lambda>x. \<not> P x) xs)) = {}"
  by (auto simp: distinct_map inj_on_def)

text \<open>The three modes read the same lines and differ only in the selection.\<close>

lemma getBranches_modes:
  "\<exists>L. fst (getBranches ''all'' exec t w) = map spec_name L
     \<and> fst (getBranches ''tracked'' exec t w) = map spec_name (filter spec_tracked L)
     \<and> fst (getBranches ''untracked'' exec t w) = map spec_name (filter (\<lambda>l. \<not> spec_tracked l) L)"
proof (cases "\<exists>text w'. exec LIST_COMMAND \<lparr>silent = Some True, timeout = None\<rparr> w = (Inr (Some text), w')
    \<and> text \<noteq> TIMEOUT_SENTINEL")
  case True
  then obtain listing w' where
    ok: "exec LIST_COMMAND \<lparr>silent = Some True, timeout = None\<rparr> w = (Inr (Some listing), w')"
      "listing \<noteq> TIMEOUT_SENTINEL"
    by blast
  let ?L = "filter (\<lambda>l. \<not> spec_protected (currentBranch t) (spec_name l)) (branchLines listing)"
  have g: "\<And>mode. fst (getBranches mode exec t w) = spec_getBranches mode (currentBranch t) listing"
    using ok by (simp add: getBranches_def collect_spec)
  have "spec_getBranches ''all'' (currentBranch t) listing = map spec_name ?L"
    by (simp add: spec_getBranches_def spec_selected_def)
  moreover have "spec_getBranches ''tracked'' (currentBranch t) listing
      = map spec_name (filter spec_tracked ?L)"
    by (simp add: spec_getBranches_def spec_selected_def conj_commute)
  moreover have "spec_getBranches ''untracked'' (currentBranch t) listing
      = map spec_name (filter (\<lambda>l. \<not> spec_tracked l) ?L)"
    by (simp add: spec_getBranches_def spec_selected_def conj_commute)
  ultimately show ?thesis unfolding g by blast
next
  case False
  then have "\<And>mode. fst (getBranches mode exec t w) = []"
    by (auto simp: getBranches_def split: prod.splits sum.splits option.splits)
  then have "fst (getBranches ''all'' exec t w) = map spec_name []
     \<and> fst (getBranches ''tracked'' exec t w) = map spec_name (filter spec_tracked [])
     \<and> fst (getBranches ''untracked'' exec t w) = map spec_name (filter (\<lambda>l. \<not> spec_tracked l) [])"
    by simp
  then show ?thesis by (rule exI)
qed

text \<open>
  C10, as amended. For the same listing and current branch, every line of the \<open>all\<close>
  output goes to exactly one of the \<open>tracked\<close> and \<open>untracked\<close> outputs: there is a
  marking of the positions of the \<open>all\<close> output such that \<open>tracked\<close> is the marked
  entries and \<open>untracked\<close> the unmarked ones, in order. Hence both are order-preserving
  subsequences of \<open>all\<close> and together have exactly its entries. When the names in the
  \<open>all\<close> output are pairwise distinct, no name is in both outputs.
\<close>

theorem getBranches_partition:
  "(\<exists>keep. length keep = length (fst (getBranches ''all'' exec t w))
      \<and> fst (getBranches ''tracked'' exec t w)
          = map fst (filter snd (zip (fst (getBranches ''all'' exec t w)) keep))
      \<and> fst (getBranches ''untracked'' exec t w)
          = map fst (filter (\<lambda>x. \<not> snd x) (zip (fst (getBranches ''all'' exec t w)) keep)))
   \<and> subseq (fst (getBranches ''tracked'' exec t w)) (fst (getBranches ''all'' exec t w))
   \<and> subseq (fst (getBranches ''untracked'' exec t w)) (fst (getBranches ''all'' exec t w))
   \<and> mset (fst (getBranches ''all'' exec t w))
       = mset (fst (getBranches ''tracked'' exec t w)) + mset (fst (getBranches ''untracked'' exec t w))
   \<and> (distinct (fst (getBranches ''all'' exec t w))
       \<longrightarrow> set (fst (getBranches ''tracked'' exec t w))
             \<inter> set (fst (getBranches ''untracked'' exec t w)) = {})"
proof -
  obtain L where a: "fst (getBranches ''all'' exec t w) = map spec_name L"
    and b: "fst (getBranches ''tracked'' exec t w) = map spec_name (filter spec_tracked L)"
    and c: "fst (getBranches ''untracked'' exec t w)
        = map spec_name (filter (\<lambda>l. \<not> spec_tracked l) L)"
    using getBranches_modes [of exec t w] by blast
  have 1: "\<exists>keep. length keep = length (map spec_name L)
      \<and> map spec_name (filter spec_tracked L)
          = map fst (filter snd (zip (map spec_name L) keep))
      \<and> map spec_name (filter (\<lambda>l. \<not> spec_tracked l) L)
          = map fst (filter (\<lambda>x. \<not> snd x) (zip (map spec_name L) keep))"
    by (rule exI [of _ "map spec_tracked L"]) (simp add: filter_mask [symmetric] filter_mask_not [symmetric])
  have 2: "subseq (map spec_name (filter spec_tracked L)) (map spec_name L)"
    by (simp add: subseq_map)
  have 3: "subseq (map spec_name (filter (\<lambda>l. \<not> spec_tracked l) L)) (map spec_name L)"
    by (simp add: subseq_map)
  have 4: "mset (map spec_name L) = mset (map spec_name (filter spec_tracked L))
      + mset (map spec_name (filter (\<lambda>l. \<not> spec_tracked l) L))"
    by (rule mset_map_filter_split)
  have 5: "distinct (map spec_name L) \<longrightarrow> set (map spec_name (filter spec_tracked L))
      \<inter> set (map spec_name (filter (\<lambda>l. \<not> spec_tracked l) L)) = {}"
    using distinct_map_filter_disjoint [of spec_name L spec_tracked] by blast
  show ?thesis unfolding a b c using 1 2 3 4 5 by blast
qed

theorem getBranches_partition_witness:
  "distinct (fst (getBranches ''all'' (fixed_exec (Inr (Some mixed_listing)))
       (new_tool\<lparr>currentBranch := ''main''\<rparr>) ()))
   \<and> fst (getBranches ''all'' (fixed_exec (Inr (Some mixed_listing)))
       (new_tool\<lparr>currentBranch := ''main''\<rparr>) ()) = [''feature1'', ''local'']
   \<and> fst (getBranches ''tracked'' (fixed_exec (Inr (Some mixed_listing)))
       (new_tool\<lparr>currentBranch := ''main''\<rparr>) ()) = [''feature1'']
   \<and> fst (getBranches ''untracked'' (fixed_exec (Inr (Some mixed_listing)))
       (new_tool\<lparr>currentBranch := ''main''\<rparr>) ()) = [''local'']
   \<and> set (fst (getBranches ''tracked'' (fixed_exec (Inr (Some mixed_listing)))
         (new_tool\<lparr>currentBranch := ''main''\<rparr>) ()))
       \<inter> set (fst (getBranches ''untracked'' (fixed_exec (Inr (Some mixed_listing)))
         (new_tool\<lparr>currentBranch := ''main''\<rparr>) ())) = {}"
proof -
  let ?e = "fixed_exec (Inr (Some mixed_listing))"
  let ?t = "new_tool\<lparr>currentBranch := ''main''\<rparr>"
  note inst = getBranches_partition [of ?e ?t "()"]
  have a: "fst (getBranches ''all'' ?e ?t ()) = [''feature1'', ''local'']"
    by code_simp
  have b: "fst (getBranches ''tracked'' ?e ?t ()) = [''feature1'']"
    by code_simp
  have c: "fst (getBranches ''untracked'' ?e ?t ()) = [''local'']"
    by code_simp
  have d: "distinct (fst (getBranches ''all'' ?e ?t ()))"
    unfolding a by simp
  have e: "set (fst (getBranches ''tracked'' ?e ?t ())) \<inter> set (fst (getBranches ''untracked'' ?e ?t ())) = {}"
    by (rule conjunct2 [OF conjunct2 [OF conjunct2 [OF conjunct2 [OF inst]]], rule_format, OF d])
  show ?thesis
    by (rule conjI [OF d conjI [OF a conjI [OF b conjI [OF c e]]]])
qed

text \<open>
  Read by names, C10 fails on a listing in which a name occurs on a line with an upstream
  and on a line without: the name is in both outputs.
\<close>

theorem getBranches_partition_counterexample:
  "''foo'' \<in> set (fst (getBranches ''all'' (fixed_exec (Inr (Some dup_listing))) new_tool ()))
   \<and> ''foo'' \<in> set (fst (getBranches ''tracked'' (fixed_exec (Inr (Some dup_listing))) new_tool ()))
   \<and> ''foo'' \<in> set (fst (getBranches ''untracked'' (fixed_exec (Inr (Some dup_listing))) new_tool ()))"
proof -
  have a: "fst (getBranches ''all'' (fixed_exec (Inr (Some dup_listing))) new_tool ()) = [''foo'', ''foo'']"
    by code_simp
  have b: "fst (getBranches ''tracked'' (fixed_exec (Inr (Some dup_listing))) new_tool ()) = [''foo'']"
    by code_simp
  have c: "fst (getBranches ''untracked'' (fixed_exec (Inr (Some dup_listing))) new_tool ()) = [''foo'']"
    by code_simp
  show ?thesis unfolding a b c by simp
qed

section \<open>PR status resolver: properties\<close>

lemma getPRStatus_recording:
  "snd (snd (getPRStatus (recording exec) b (w, calls)))
   = calls @ [(pr_command b, \<lparr>silent = Some True, timeout = Some PR_TIMEOUT\<rparr>)]"
  by (simp add: getPRStatus_def recording_def split: prod.splits sum.splits)

text \<open>
  C8, as amended. \<open>getPRStatus\<close> calls \<open>execCommand\<close> exactly once, for the status of
  the branch, with \<open>silent\<close> set and a timeout of 10000 ms, below the default of 30000 ms,
  which is the timeout \<open>execSync\<close> then gets. It cannot throw. When the child process
  returns, the result is its trimmed output; when it times out, the result is the sentinel
  \<open>__TIMEOUT__\<close>; when it fails otherwise, or when \<open>execCommand\<close> itself throws, the
  result is \<open>null\<close>, the value that also stands for a branch without a PR.
\<close>

theorem getPRStatus_degrades:
  "snd (snd (getPRStatus (recording exec) b (w, [])))
     = [(pr_command b, \<lparr>silent = Some True, timeout = Some 10000\<rparr>)]
   \<and> timeout_ms (exec_options_of \<lparr>silent = Some True, timeout = Some 10000\<rparr>) = 10000
   \<and> 10000 < DEFAULT_TIMEOUT
   \<and> (\<forall>out w'. execSync (pr_command b)
          (exec_options_of \<lparr>silent = Some True, timeout = Some 10000\<rparr>) w = (Returned out, w')
        \<longrightarrow> getPRStatus (execCommand execSync) b w = (Some (trim out), w'))
   \<and> (\<forall>e w'. execSync (pr_command b)
          (exec_options_of \<lparr>silent = Some True, timeout = Some 10000\<rparr>) w = (Threw e, w')
        \<longrightarrow> getPRStatus (execCommand execSync) b w
            = (if is_timeout e then Some ''__TIMEOUT__'' else None, w'))
   \<and> (\<forall>e w'. exec (pr_command b) \<lparr>silent = Some True, timeout = Some 10000\<rparr> w = (Inl e, w')
        \<longrightarrow> getPRStatus exec b w = (None, w'))"
proof -
  have "snd (snd (getPRStatus (recording exec) b (w, [])))
      = [(pr_command b, \<lparr>silent = Some True, timeout = Some 10000\<rparr>)]"
    using getPRStatus_recording [of exec b w "[]"] by (simp add: PR_TIMEOUT_def)
  then show ?thesis
    by (auto simp: PR_TIMEOUT_def getPRStatus_def execCommand_def execCommand_catch_def
        truthy_bool_def TIMEOUT_SENTINEL_def exec_options_of_def DEFAULT_TIMEOUT_def)
qed

theorem getPRStatus_degrades_witness:
  "getPRStatus (execCommand (fixed_execSync (Threw timeout_error))) ''b1'' ()
     = (Some ''__TIMEOUT__'', ())
   \<and> getPRStatus (execCommand (fixed_execSync (Threw plain_error))) ''b1'' () = (None, ())
   \<and> getPRStatus (execCommand (fixed_execSync (Returned ''MERGED\<newline>''))) ''b1'' ()
     = (Some ''MERGED'', ())
   \<and> getPRStatus (fixed_exec (Inl plain_error)) ''b1'' () = (None, ())"
proof -
  let ?o = "\<lparr>silent = Some True, timeout = Some 10000\<rparr>"
  note i1 = getPRStatus_degrades [of _ "''b1''" "()" "fixed_execSync (Threw timeout_error)"]
  note i2 = getPRStatus_degrades [of _ "''b1''" "()" "fixed_execSync (Threw plain_error)"]
  note i3 = getPRStatus_degrades [of _ "''b1''" "()" "fixed_execSync (Returned ''MERGED\<newline>'')"]
  note i4 = getPRStatus_degrades [of "fixed_exec (Inl plain_error)" "''b1''" "()"]
  have a: "fixed_execSync (Threw timeout_error) (pr_command ''b1'') (exec_options_of ?o) ()
      = (Threw timeout_error, ())"
    by (simp add: fixed_execSync_def)
  have b: "fixed_execSync (Threw plain_error) (pr_command ''b1'') (exec_options_of ?o) ()
      = (Threw plain_error, ())"
    by (simp add: fixed_execSync_def)
  have c: "fixed_execSync (Returned ''MERGED\<newline>'') (pr_command ''b1'') (exec_options_of ?o) ()
      = (Returned ''MERGED\<newline>'', ())"
    by (simp add: fixed_execSync_def)
  have d: "fixed_exec (Inl plain_error) (pr_command ''b1'') ?o () = (Inl plain_error, ())"
    by (simp add: fixed_exec_def)
  have e: "is_timeout timeout_error" "\<not> is_timeout plain_error"
    by (simp_all add: is_timeout_def timeout_error_def plain_error_def)
  have tr: "trim ''MERGED\<newline>'' = ''MERGED''"
    by (simp add: trim_def is_ws_def)
  have "getPRStatus (execCommand (fixed_execSync (Threw timeout_error))) ''b1'' ()
      = (if is_timeout timeout_error then Some ''__TIMEOUT__'' else None, ())"
    by (rule conjunct1 [OF conjunct2 [OF conjunct2 [OF conjunct2 [OF conjunct2 [OF i1]]]],
          rule_format, OF a])
  then have 1: "getPRStatus (execCommand (fixed_execSync (Threw timeout_error))) ''b1'' ()
      = (Some ''__TIMEOUT__'', ())"
    by (simp only: e if_True)
  have "getPRStatus (execCommand (fixed_execSync (Threw plain_error))) ''b1'' ()
      = (if is_timeout plain_error then Some ''__TIMEOUT__'' else None, ())"
    by (rule conjunct1 [OF conjunct2 [OF conjunct2 [OF conjunct2 [OF conjunct2 [OF i2]]]],
          rule_format, OF b])
  then have 2: "getPRStatus (execCommand (fixed_execSync (Threw plain_error))) ''b1'' () = (None, ())"
    by (simp only: e if_False)
  have "getPRStatus (execCommand (fixed_execSync (Returned ''MERGED\<newline>''))) ''b1'' ()
      = (Some (trim ''MERGED\<newline>''), ())"
    by (rule conjunct1 [OF conjunct2 [OF conjunct2 [OF conjunct2 [OF i3]]], rule_format, OF c])
  then have 3: "getPRStatus (execCommand (fixed_execSync (Returned ''MERGED\<newline>''))) ''b1'' ()
      = (Some ''MERGED'', ())"
    by (simp only: tr)
  have 4: "getPRStatus (fixed_exec (Inl plain_error)) ''b1'' () = (None, ())"
    by (rule conjunct2 [OF conjunct2 [OF conjunct2 [OF conjunct2 [OF conjunct2 [OF i4]]]],
          rule_format, OF d])
  show ?thesis
    by (rule conjI [OF 1 conjI [OF 2 conjI [OF 3 4]]])
qed

text \<open>
  As stated, C8 fails where the query throws: the result is not a status of its own but
  \<open>null\<close>, the same value as for a branch without a PR, and the row is labelled
  \<open>No PR\<close>, not \<open>Error\<close>.
\<close>

theorem getPRStatus_degrades_counterexample:
  "fst (getPRStatus (fixed_exec (Inl plain_error)) ''b1'' ()) = None
   \<and> fst (getPRStatus (fixed_exec (Inl plain_error)) ''b1'' ())
       = fst (getPRStatus (fixed_exec (Inr None)) ''b1'' ())
   \<and> expected_result ''b1'' (Inr (fst (getPRStatus (fixed_exec (Inl plain_error)) ''b1'' ())))
       = \<lparr>branch = ''b1'', icon = Cross, label = ''No PR''\<rparr>
   \<and> expected_result ''b1'' (Inr (fst (getPRStatus (fixed_exec (Inl plain_error)) ''b1'' ())))
       \<noteq> \<lparr>branch = ''b1'', icon = Warn, label = ''Error''\<rparr>"
  by (simp add: getPRStatus_def fixed_exec_def expected_result_def status_entry_def)


section \<open>Worker pools: properties\<close>

lemma resumed_active:
  assumes "\<not> list_all finished (workers p)"
  shows "resumed pick p < length (workers p) \<and> \<not> finished (workers p ! resumed pick p)"
proof -
  have "length (takeWhile finished (workers p)) < length (workers p)"
  proof (rule ccontr)
    assume "\<not> length (takeWhile finished (workers p)) < length (workers p)"
    then have "length (takeWhile finished (workers p)) = length (workers p)"
      using length_takeWhile_le [of finished "workers p"] by simp
    then have "takeWhile finished (workers p) = workers p"
      using takeWhile_eq_take [of finished "workers p"] by simp
    then show False using assms by (simp add: list_all_iff)
  qed
  then have "first_active p < length (workers p) \<and> \<not> finished (workers p ! first_active p)"
    unfolding first_active_def by (simp add: nth_length_takeWhile)
  then show ?thesis unfolding resumed_def by auto
qed

text \<open>
  Whatever holds at the start and is kept by every resumption of an unfinished worker
  holds when all workers have finished, and they do all finish.
\<close>

lemma drive_rule:
  assumes "P p"
    and "\<And>k q. P q \<Longrightarrow> k < length (workers q) \<Longrightarrow> \<not> finished (workers q ! k)
           \<Longrightarrow> P (worker_step call settle totalUnits k q)"
  shows "P (drive call settle totalUnits pick p)
     \<and> list_all finished (workers (drive call settle totalUnits pick p))"
  using assms
proof (induction call settle totalUnits pick p rule: drive.induct)
  case (1 call settle totalUnits pick p)
  show ?case
  proof (cases "list_all finished (workers p)")
    case True
    have "drive call settle totalUnits pick p = p"
      using drive.simps [of call settle totalUnits pick p] True by simp
    then show ?thesis using "1.prems"(1) True by simp
  next
    case False
    have unf: "drive call settle totalUnits pick p
        = drive call settle totalUnits pick (worker_step call settle totalUnits (resumed pick p) p)"
      using drive.simps [of call settle totalUnits pick p] False by simp
    note act = resumed_active [OF False, of pick]
    have "P (worker_step call settle totalUnits (resumed pick p) p)"
      using "1.prems"(1) conjunct1 [OF act] conjunct2 [OF act] by (rule "1.prems"(2))
    from "1.IH" [OF False this "1.prems"(2)] show ?thesis
      unfolding unf .
  qed
qed

lemma worker_step_length:
  "length (workers (worker_step call settle totalUnits k p)) = length (workers p)"
  by (simp add: worker_step_def Let_def split: wstate.splits prod.splits)

lemma awaited_update:
  "k < length ws \<Longrightarrow>
     mset (awaited (ws[k := v])) + mset (pending (ws ! k)) = mset (awaited ws) + mset (pending v)"
proof (induction ws arbitrary: k)
  case Nil
  then show ?case by simp
next
  case (Cons a ws)
  show ?case
  proof (cases k)
    case 0
    then show ?thesis by (simp add: awaited_def)
  next
    case (Suc j)
    then have "j < length ws" using Cons.prems by simp
    from Cons.IH [OF this] show ?thesis using Suc by (simp add: awaited_def)
  qed
qed

lemma awaited_finished: "list_all finished ws \<Longrightarrow> awaited ws = []"
proof (induction ws)
  case Nil
  then show ?case by (simp add: awaited_def)
next
  case (Cons a ws)
  then show ?case by (cases a) (simp_all add: awaited_def)
qed

lemma pool_inv_spawn: "pool_inv call settle totalUnits w0 s0 (spawn n w0 s0)"
proof -
  have "awaited (replicate n Ready) = []"
    by (induction n) (simp_all add: awaited_def)
  then have "mset [] + mset (awaited (replicate n Ready)) = mset [0..<0]
      \<and> s0 = foldl (\<lambda>s i. settle i (answer_at call w0 i) s) s0 []"
    by simp
  then show ?thesis
    unfolding pool_inv_def spawn_def by (auto intro: exI [of _ "[]"])
qed

lemma pool_inv_step:
  assumes inv: "pool_inv call settle totalUnits w0 s0 p"
    and k: "k < length (workers p)" and nf: "\<not> finished (workers p ! k)"
  shows "pool_inv call settle totalUnits w0 s0 (worker_step call settle totalUnits k p)"
proof -
  let ?ws = "workers p"
  from inv obtain cs where
    le: "nextIndex p \<le> totalUnits"
    and wd: "world p = world_at call w0 (nextIndex p)"
    and ms: "mset cs + mset (awaited ?ws) = mset [0..<nextIndex p]"
    and sh: "shared p = foldl (\<lambda>s i. settle i (answer_at call w0 i) s) s0 cs"
    and aw: "\<forall>i r. Awaiting i r \<in> set ?ws \<longrightarrow> r = answer_at call w0 i"
    and dn: "Done \<in> set ?ws \<longrightarrow> totalUnits \<le> nextIndex p"
    unfolding pool_inv_def by blast
  have sub: "\<And>v. set (?ws[k := v]) \<subseteq> insert v (set ?ws)"
    by (rule set_update_subset_insert)
  show ?thesis
  proof (cases "?ws ! k")
    case Ready
    show ?thesis
    proof (cases "totalUnits \<le> nextIndex p")
      case True
      have st: "worker_step call settle totalUnits k p = p\<lparr>workers := ?ws[k := Done]\<rparr>"
        using Ready True by (simp add: worker_step_def)
      have "mset (awaited (?ws[k := Done])) = mset (awaited ?ws)"
        using awaited_update [OF k, of Done] Ready by simp
      then have "mset cs + mset (awaited (?ws[k := Done])) = mset [0..<nextIndex p]"
        using ms by simp
      moreover have "\<forall>i r. Awaiting i r \<in> set (?ws[k := Done]) \<longrightarrow> r = answer_at call w0 i"
        using aw sub [of Done] by auto
      ultimately show ?thesis
        unfolding st pool_inv_def using le wd sh True by auto
    next
      case False
      let ?i = "nextIndex p"
      obtain r w' where c: "call ?i (world p) = (r, w')" by (cases "call ?i (world p)") auto
      have st: "worker_step call settle totalUnits k p
          = p\<lparr>workers := ?ws[k := Awaiting ?i r], nextIndex := ?i + 1, world := w'\<rparr>"
        using Ready False c by (simp add: worker_step_def Let_def)
      have r: "r = answer_at call w0 ?i" and w': "w' = world_at call w0 (Suc ?i)"
        using c wd by (simp_all add: answer_at_def)
      have "mset (awaited (?ws[k := Awaiting ?i r])) = mset (awaited ?ws) + {#?i#}"
        using awaited_update [OF k, of "Awaiting ?i r"] Ready by simp
      then have m: "mset cs + mset (awaited (?ws[k := Awaiting ?i r])) = mset [0..<Suc ?i]"
        using ms by simp
      have a: "\<forall>j r'. Awaiting j r' \<in> set (?ws[k := Awaiting ?i r]) \<longrightarrow> r' = answer_at call w0 j"
        using aw sub [of "Awaiting ?i r"] r by auto
      have "Done \<notin> set ?ws" using dn False by auto
      then have d: "Done \<notin> set (?ws[k := Awaiting ?i r])"
        using sub [of "Awaiting ?i r"] by auto
      show ?thesis
        unfolding st pool_inv_def using False w' m sh a d by auto
    qed
  next
    case (Awaiting i r)
    have st: "worker_step call settle totalUnits k p
        = p\<lparr>workers := ?ws[k := Ready], shared := settle i r (shared p)\<rparr>"
      using Awaiting by (simp add: worker_step_def)
    have "Awaiting i r \<in> set ?ws" using Awaiting k by (metis nth_mem)
    then have r: "r = answer_at call w0 i" using aw by blast
    have e: "mset (awaited (?ws[k := Ready])) + {#i#} = mset (awaited ?ws)"
      using awaited_update [OF k, of Ready] Awaiting by simp
    have "mset (cs @ [i]) + mset (awaited (?ws[k := Ready]))
        = mset cs + (mset (awaited (?ws[k := Ready])) + {#i#})"
      by simp
    then have m: "mset (cs @ [i]) + mset (awaited (?ws[k := Ready])) = mset [0..<nextIndex p]"
      unfolding e using ms by simp
    have s: "settle i r (shared p) = foldl (\<lambda>s i. settle i (answer_at call w0 i) s) s0 (cs @ [i])"
      using sh r by simp
    have a: "\<forall>j r'. Awaiting j r' \<in> set (?ws[k := Ready]) \<longrightarrow> r' = answer_at call w0 j"
      using aw sub [of Ready] by auto
    have d: "Done \<in> set (?ws[k := Ready]) \<longrightarrow> totalUnits \<le> nextIndex p"
      using dn sub [of Ready] by auto
    show ?thesis
      unfolding st pool_inv_def using le wd m s a d by (auto intro: exI [of _ "cs @ [i]"])
  next
    case Done
    then show ?thesis using nf by simp
  qed
qed

text \<open>
  The outcome of a pool of at least one worker, whatever the order of resumptions: all
  workers have left, the counter is at the number of units, the calls were those for the
  indices in index order, and the shared variables are the initial ones after each
  index was settled exactly once, with the answer to its call, in some order.
\<close>

lemma drive_outcome:
  assumes "0 < n"
  shows "list_all finished (workers (drive call settle totalUnits pick (spawn n w0 s0)))
     \<and> length (workers (drive call settle totalUnits pick (spawn n w0 s0))) = n
     \<and> nextIndex (drive call settle totalUnits pick (spawn n w0 s0)) = totalUnits
     \<and> world (drive call settle totalUnits pick (spawn n w0 s0)) = world_at call w0 totalUnits
     \<and> (\<exists>cs. mset cs = mset [0..<totalUnits]
          \<and> shared (drive call settle totalUnits pick (spawn n w0 s0))
              = foldl (\<lambda>s i. settle i (answer_at call w0 i) s) s0 cs)"
proof -
  let ?p = "drive call settle totalUnits pick (spawn n w0 s0)"
  let ?P = "\<lambda>q. pool_inv call settle totalUnits w0 s0 q \<and> length (workers q) = n"
  have "?P (spawn n w0 s0)"
    using pool_inv_spawn [of call settle totalUnits w0 s0 n] by (simp add: spawn_def)
  moreover have "\<And>k q. ?P q \<Longrightarrow> k < length (workers q) \<Longrightarrow> \<not> finished (workers q ! k)
      \<Longrightarrow> ?P (worker_step call settle totalUnits k q)"
  proof -
    fix k q
    assume P: "?P q" and k: "k < length (workers q)" and nf: "\<not> finished (workers q ! k)"
    from P have "pool_inv call settle totalUnits w0 s0 q" by (rule conjunct1)
    then have "pool_inv call settle totalUnits w0 s0 (worker_step call settle totalUnits k q)"
      using k nf by (rule pool_inv_step)
    moreover have "length (workers (worker_step call settle totalUnits k q)) = n"
      using P by (simp add: worker_step_length)
    ultimately show "?P (worker_step call settle totalUnits k q)" by (rule conjI)
  qed
  ultimately have fin: "?P ?p \<and> list_all finished (workers ?p)"
    by (rule drive_rule)
  then have inv: "pool_inv call settle totalUnits w0 s0 ?p" and len: "length (workers ?p) = n"
    and allfin: "list_all finished (workers ?p)"
    by simp_all
  from len assms obtain s where s: "s \<in> set (workers ?p)"
    by (cases "workers ?p") auto
  then have "finished s" using allfin by (simp add: list_all_iff)
  then have "s = Done" by (cases s) simp_all
  then have d: "Done \<in> set (workers ?p)" using s by simp
  from inv d have ni: "nextIndex ?p = totalUnits"
    unfolding pool_inv_def by auto
  from inv obtain cs where
    "mset cs + mset (awaited (workers ?p)) = mset [0..<nextIndex ?p]"
    "shared ?p = foldl (\<lambda>s i. settle i (answer_at call w0 i) s) s0 cs"
    unfolding pool_inv_def by blast
  then have "mset cs = mset [0..<totalUnits]
      \<and> shared ?p = foldl (\<lambda>s i. settle i (answer_at call w0 i) s) s0 cs"
    using awaited_finished [OF allfin] ni by simp
  then have ex: "\<exists>cs. mset cs = mset [0..<totalUnits]
      \<and> shared ?p = foldl (\<lambda>s i. settle i (answer_at call w0 i) s) s0 cs"
    by (rule exI)
  from inv ni have "world ?p = world_at call w0 totalUnits"
    unfolding pool_inv_def by auto
  with allfin len ni ex show ?thesis by blast
qed


section \<open>Concurrent batch processor: properties\<close>

lemma status_entry_deletable:
  "snd (snd (status_entry st)) = deletable (Inr st)"
  by (simp add: status_entry_def deletable_def)

text \<open>What settling one index does to the shared variables.\<close>

lemma fluidWorker_settle_map:
  "resultsMap (fluidWorker_settle vb bs i r v) = (resultsMap v)(bs ! i \<mapsto> expected_result (bs ! i) r)"
  by (cases r)
     (simp_all add: fluidWorker_settle_def processBranch_resume_def expected_result_def Let_def
        split: prod.splits)

lemma fluidWorker_settle_delete:
  "branchesToDeleteSync (fluidWorker_settle vb bs i r v)
     = branchesToDeleteSync v @ (if deletable r then [bs ! i] else [])"
proof (cases r)
  case (Inl e)
  then show ?thesis
    by (simp add: fluidWorker_settle_def deletable_def Let_def)
next
  case (Inr st)
  obtain ic lb d where se: "status_entry st = (ic, lb, d)"
    by (cases "status_entry st") auto
  then have "d = deletable (Inr st)"
    using status_entry_deletable [of st] by simp
  then show ?thesis
    using Inr se by (simp add: fluidWorker_settle_def processBranch_resume_def Let_def)
qed

lemma settled_delete:
  "branchesToDeleteSync (foldl (\<lambda>s i. fluidWorker_settle vb bs i (ans i) s) v0 cs)
     = branchesToDeleteSync v0 @ map (\<lambda>i. bs ! i) (filter (\<lambda>i. deletable (ans i)) cs)"
  by (induction cs rule: rev_induct) (simp_all add: fluidWorker_settle_delete)

lemma settled_map:
  "i \<in> set cs \<Longrightarrow>
     \<exists>j\<in>set cs. bs ! j = bs ! i
       \<and> resultsMap (foldl (\<lambda>s i. fluidWorker_settle vb bs i (ans i) s) v0 cs) (bs ! i)
           = Some (expected_result (bs ! i) (ans j))"
proof (induction cs rule: rev_induct)
  case Nil
  then show ?case by simp
next
  case (snoc c cs)
  show ?case
  proof (cases "bs ! c = bs ! i")
    case True
    then show ?thesis by (auto simp: fluidWorker_settle_map)
  next
    case False
    then have "i \<in> set cs" using snoc.prems by auto
    from snoc.IH [OF this] show ?thesis using False by (auto simp: fluidWorker_settle_map)
  qed
qed

lemma expected_result_branch: "branch (expected_result b r) = b"
  by (cases r) (simp_all add: expected_result_def)

text \<open>
  \<open>checkBranches\<close> on an empty list of tracked branches, and on a non-empty one: the pool
  it leaves, and what it reads from the pool.
\<close>

lemma checkBranches_empty:
  assumes "getTracked t w = ([], t1, w1)"
  shows "checkBranches getTracked query pick t w
     = (emit Info [T ''You might want to use --untracked-only to see local-only branches.'']
          (emit Warning [T ''No tracked branches found to check.''] t1), w1, None)"
  using assms by (simp add: checkBranches_def)

lemma checkBranches_nonempty:
  assumes gt: "getTracked t w = (bs, t1, w1)" and ne: "bs \<noteq> []"
  shows "\<exists>p cs. mset cs = mset [0..<length bs]
      \<and> list_all finished (workers p)
      \<and> length (workers p) = min CONCURRENCY_LIMIT (length bs)
      \<and> nextIndex p = length bs
      \<and> shared p = foldl (\<lambda>s i. fluidWorker_settle (verbose t1) bs i
                                   (answer_at (processBranch_call query bs) w1 i) s)
                     \<lparr>resultsMap = Map.empty, branchesToDeleteSync = [], debugLines = []\<rparr> cs
      \<and> checkBranches getTracked query pick t w
          = (emit Log [T '''']
               (emit Success [T ''Finished checking '', N (length bs), T '' tracked branches'']
                  (t1\<lparr>events := events t1 @ debugLines (shared p),
                      prResults := map (resultsMap (shared p)) bs,
                      branchesToDelete := branchesToDeleteSync (shared p)\<rparr>)),
             world_at (processBranch_call query bs) w1 (length bs), Some p)"
proof -
  let ?v0 = "\<lparr>resultsMap = Map.empty, branchesToDeleteSync = [], debugLines = []\<rparr>"
  let ?p = "drive (processBranch_call query bs) (fluidWorker_settle (verbose t1) bs) (length bs)
      pick (spawn (min CONCURRENCY_LIMIT (length bs)) w1 ?v0)"
  have pos: "0 < min CONCURRENCY_LIMIT (length bs)"
    using ne by (simp add: CONCURRENCY_LIMIT_def)
  from drive_outcome [OF pos, of "processBranch_call query bs"
      "fluidWorker_settle (verbose t1) bs" "length bs" pick w1 ?v0]
  obtain cs where
    fin: "list_all finished (workers ?p)"
    and len: "length (workers ?p) = min CONCURRENCY_LIMIT (length bs)"
    and ni: "nextIndex ?p = length bs"
    and wd: "world ?p = world_at (processBranch_call query bs) w1 (length bs)"
    and ms: "mset cs = mset [0..<length bs]"
    and sh: "shared ?p = foldl (\<lambda>s i. fluidWorker_settle (verbose t1) bs i
                                   (answer_at (processBranch_call query bs) w1 i) s) ?v0 cs"
    by blast
  have cb: "checkBranches getTracked query pick t w
          = (emit Log [T '''']
               (emit Success [T ''Finished checking '', N (length bs), T '' tracked branches'']
                  (t1\<lparr>events := events t1 @ debugLines (shared ?p),
                      prResults := map (resultsMap (shared ?p)) bs,
                      branchesToDelete := branchesToDeleteSync (shared ?p)\<rparr>)),
             world_at (processBranch_call query bs) w1 (length bs), Some ?p)"
    using gt ne wd by (simp add: checkBranches_def Let_def)
  show ?thesis
    using ms fin len ni sh cb by blast
qed

text \<open>The rows and the deletion list that \<open>checkBranches\<close> leaves in the tool.\<close>

lemma checkBranches_rows:
  assumes gt: "getTracked t w = (bs, t1, w1)" and ne: "bs \<noteq> []"
  shows "length (prResults (fst (checkBranches getTracked query pick t w))) = length bs"
    and "\<forall>i<length bs. \<exists>j<length bs. bs ! j = bs ! i
           \<and> prResults (fst (checkBranches getTracked query pick t w)) ! i
               = Some (expected_result (bs ! i) (answer_at (processBranch_call query bs) w1 j))"
    and "mset (branchesToDelete (fst (checkBranches getTracked query pick t w)))
           = mset (map (\<lambda>i. bs ! i)
               (filter (\<lambda>i. deletable (answer_at (processBranch_call query bs) w1 i))
                  [0..<length bs]))"
proof -
  let ?ans = "answer_at (processBranch_call query bs) w1"
  let ?v0 = "\<lparr>resultsMap = Map.empty, branchesToDeleteSync = [], debugLines = []\<rparr>"
  from checkBranches_nonempty [of getTracked t w bs t1 w1 query pick, OF gt ne]
  obtain p cs where ms: "mset cs = mset [0..<length bs]"
    and sh: "shared p = foldl (\<lambda>s i. fluidWorker_settle (verbose t1) bs i (?ans i) s) ?v0 cs"
    and cb: "checkBranches getTracked query pick t w
          = (emit Log [T '''']
               (emit Success [T ''Finished checking '', N (length bs), T '' tracked branches'']
                  (t1\<lparr>events := events t1 @ debugLines (shared p),
                      prResults := map (resultsMap (shared p)) bs,
                      branchesToDelete := branchesToDeleteSync (shared p)\<rparr>)),
             world_at (processBranch_call query bs) w1 (length bs), Some p)"
    by blast
  have pr: "prResults (fst (checkBranches getTracked query pick t w))
      = map (resultsMap (shared p)) bs"
    and bd: "branchesToDelete (fst (checkBranches getTracked query pick t w))
      = branchesToDeleteSync (shared p)"
    unfolding cb by (simp_all add: emit_def)
  have sc: "set cs = {0..<length bs}"
    using mset_eq_setD [OF ms] by simp
  show "length (prResults (fst (checkBranches getTracked query pick t w))) = length bs"
    unfolding pr by simp
  show "\<forall>i<length bs. \<exists>j<length bs. bs ! j = bs ! i
           \<and> prResults (fst (checkBranches getTracked query pick t w)) ! i
               = Some (expected_result (bs ! i) (?ans j))"
  proof (intro allI impI)
    fix i assume i: "i < length bs"
    then have "i \<in> set cs" using sc by simp
    from settled_map [OF this, of bs "verbose t1" ?ans ?v0]
    obtain j where "j \<in> set cs" "bs ! j = bs ! i"
      "resultsMap (shared p) (bs ! i) = Some (expected_result (bs ! i) (?ans j))"
      unfolding sh by blast
    then show "\<exists>j<length bs. bs ! j = bs ! i
           \<and> prResults (fst (checkBranches getTracked query pick t w)) ! i
               = Some (expected_result (bs ! i) (?ans j))"
      unfolding pr using i sc by auto
  qed
  have "mset (branchesToDeleteSync (shared p))
      = image_mset (\<lambda>i. bs ! i) (filter_mset (\<lambda>i. deletable (?ans i)) (mset cs))"
    unfolding sh settled_delete by simp
  also have "\<dots> = mset (map (\<lambda>i. bs ! i) (filter (\<lambda>i. deletable (?ans i)) [0..<length bs]))"
    unfolding ms by simp
  finally show "mset (branchesToDelete (fst (checkBranches getTracked query pick t w)))
           = mset (map (\<lambda>i. bs ! i) (filter (\<lambda>i. deletable (?ans i)) [0..<length bs]))"
    unfolding bd .
qed


text \<open>
  C1. Let \<open>bs\<close> be the list \<open>getTrackedBranches\<close> gives (for the empty list, on a tool
  whose \<open>prResults\<close> is empty, as the constructor leaves it). Whatever the order in which
  the workers are resumed and whatever the status queries give or throw, \<open>prResults\<close>
  has exactly as many entries as \<open>bs\<close>, and entry \<open>i\<close> is a row whose \<open>branch\<close> is
  \<open>bs ! i\<close>. The queries made are those for the branches in input order, one each.
\<close>

theorem checkBranches_results_in_order:
  assumes "getTracked t w = (bs, t1, w1)" and "bs \<noteq> [] \<or> prResults t1 = []"
  shows "length (prResults (fst (checkBranches getTracked query pick t w))) = length bs
     \<and> (\<forall>i<length bs. \<exists>r. prResults (fst (checkBranches getTracked query pick t w)) ! i = Some r
            \<and> branch r = bs ! i)
     \<and> fst (snd (checkBranches getTracked query pick t w))
         = world_at (processBranch_call query bs) w1 (length bs)"
proof (cases "bs = []")
  case True
  then show ?thesis
    using assms checkBranches_empty [of getTracked t w t1 w1 query pick]
    by (simp add: emit_def)
next
  case False
  note rows = checkBranches_rows [of getTracked t w bs t1 w1 query pick, OF assms(1) False]
  have "\<forall>i<length bs. \<exists>r. prResults (fst (checkBranches getTracked query pick t w)) ! i = Some r
            \<and> branch r = bs ! i"
    using rows(2) expected_result_branch by blast
  moreover have "fst (snd (checkBranches getTracked query pick t w))
         = world_at (processBranch_call query bs) w1 (length bs)"
    using checkBranches_nonempty [of getTracked t w bs t1 w1 query pick, OF assms(1) False]
    by auto
  ultimately show ?thesis using rows(1) by blast
qed

theorem checkBranches_results_in_order_witness:
  "fixed_tracked [''b1'', ''b2'', ''b3''] new_tool
       [Inl plain_error, Inr (Some ''MERGED''), Inr (Some ''OPEN'')]
     = ([''b1'', ''b2'', ''b3''], new_tool, [Inl plain_error, Inr (Some ''MERGED''), Inr (Some ''OPEN'')])
   \<and> [''b1'', ''b2'', ''b3''] \<noteq> ([] :: string list)
   \<and> length (prResults (fst (checkBranches (fixed_tracked [''b1'', ''b2'', ''b3'']) queued_query
        pick_eager new_tool [Inl plain_error, Inr (Some ''MERGED''), Inr (Some ''OPEN'')])))
      = length [''b1'', ''b2'', ''b3'']
   \<and> prResults (fst (checkBranches (fixed_tracked [''b1'', ''b2'', ''b3'']) queued_query
        pick_eager new_tool [Inl plain_error, Inr (Some ''MERGED''), Inr (Some ''OPEN'')]))
      = [Some \<lparr>branch = ''b1'', icon = Warn, label = ''Error''\<rparr>,
         Some \<lparr>branch = ''b2'', icon = Check, label = ''Merged''\<rparr>,
         Some \<lparr>branch = ''b3'', icon = Hourglass, label = ''Open''\<rparr>]"
proof -
  let ?bs = "[''b1'', ''b2'', ''b3'']"
  let ?w = "[Inl plain_error, Inr (Some ''MERGED''), Inr (Some ''OPEN'')]"
  have h1: "fixed_tracked ?bs new_tool ?w = (?bs, new_tool, ?w)"
    by (simp add: fixed_tracked_def)
  have ne: "?bs \<noteq> []"
    by simp
  then have h2: "?bs \<noteq> [] \<or> prResults new_tool = []"
    by (rule disjI1)
  note inst = checkBranches_results_in_order [of "fixed_tracked ?bs" new_tool ?w ?bs new_tool ?w
      queued_query pick_eager, OF h1 h2]
  have len: "length (prResults (fst (checkBranches (fixed_tracked ?bs) queued_query
        pick_eager new_tool ?w))) = length ?bs"
    by (rule conjunct1 [OF inst])
  have ev: "prResults (fst (checkBranches (fixed_tracked ?bs) queued_query pick_eager new_tool ?w))
      = [Some \<lparr>branch = ''b1'', icon = Warn, label = ''Error''\<rparr>,
         Some \<lparr>branch = ''b2'', icon = Check, label = ''Merged''\<rparr>,
         Some \<lparr>branch = ''b3'', icon = Hourglass, label = ''Open''\<rparr>]"
    by code_simp
  show ?thesis
    by (rule conjI [OF h1 conjI [OF ne conjI [OF len ev]]])
qed

text \<open>
  C2. The row of a branch is decided by a status query made for that same name, never by
  a query for another name. Hence, when the branch names are pairwise distinct, the row
  of each branch is decided by what its own query settled to: the \<open>Error\<close> row when the
  query threw, the row of the status otherwise. A throwing query stops nothing: on a
  non-empty list every worker runs until the counter is exhausted, and \<open>checkBranches\<close>
  has no way of throwing.
\<close>

theorem checkBranches_isolates_failures:
  assumes "getTracked t w = (bs, t1, w1)"
  shows "(\<forall>i<length bs. \<exists>j<length bs. bs ! j = bs ! i
            \<and> prResults (fst (checkBranches getTracked query pick t w)) ! i
                = Some (expected_result (bs ! i) (answer_at (processBranch_call query bs) w1 j)))
     \<and> (distinct bs \<longrightarrow>
          (\<forall>i<length bs. \<forall>e. answer_at (processBranch_call query bs) w1 i = Inl e
            \<longrightarrow> prResults (fst (checkBranches getTracked query pick t w)) ! i
                = Some \<lparr>branch = bs ! i, icon = Warn, label = ''Error''\<rparr>)
        \<and> (\<forall>i<length bs. \<forall>st. answer_at (processBranch_call query bs) w1 i = Inr st
            \<longrightarrow> prResults (fst (checkBranches getTracked query pick t w)) ! i
                = Some \<lparr>branch = bs ! i, icon = fst (status_entry st),
                         label = fst (snd (status_entry st))\<rparr>))
     \<and> (bs \<noteq> [] \<longrightarrow> (\<exists>p. snd (snd (checkBranches getTracked query pick t w)) = Some p
            \<and> list_all finished (workers p) \<and> nextIndex p = length bs))"
proof (cases "bs = []")
  case True
  then show ?thesis by simp
next
  case False
  let ?ans = "answer_at (processBranch_call query bs) w1"
  note rows = checkBranches_rows [of getTracked t w bs t1 w1 query pick, OF assms False]
  have own: "distinct bs \<Longrightarrow> \<forall>i<length bs.
      prResults (fst (checkBranches getTracked query pick t w)) ! i
      = Some (expected_result (bs ! i) (?ans i))"
  proof (intro allI impI)
    fix i assume d: "distinct bs" and i: "i < length bs"
    with rows(2) obtain j where j: "j < length bs" "bs ! j = bs ! i"
      and r: "prResults (fst (checkBranches getTracked query pick t w)) ! i
          = Some (expected_result (bs ! i) (?ans j))"
      by blast
    from j i d have "j = i" by (simp add: nth_eq_iff_index_eq)
    with r show "prResults (fst (checkBranches getTracked query pick t w)) ! i
        = Some (expected_result (bs ! i) (?ans i))" by simp
  qed
  have fin: "\<exists>p. snd (snd (checkBranches getTracked query pick t w)) = Some p
            \<and> list_all finished (workers p) \<and> nextIndex p = length bs"
    using checkBranches_nonempty [of getTracked t w bs t1 w1 query pick, OF assms False]
    by auto
  have dist: "distinct bs \<longrightarrow>
          (\<forall>i<length bs. \<forall>e. ?ans i = Inl e
            \<longrightarrow> prResults (fst (checkBranches getTracked query pick t w)) ! i
                = Some \<lparr>branch = bs ! i, icon = Warn, label = ''Error''\<rparr>)
        \<and> (\<forall>i<length bs. \<forall>st. ?ans i = Inr st
            \<longrightarrow> prResults (fst (checkBranches getTracked query pick t w)) ! i
                = Some \<lparr>branch = bs ! i, icon = fst (status_entry st),
                         label = fst (snd (status_entry st))\<rparr>)"
    using own by (auto simp: expected_result_def)
  from rows(2) dist fin show ?thesis by blast
qed

theorem checkBranches_isolates_failures_witness:
  "fixed_tracked [''b1'', ''b2'', ''b3''] new_tool
       [Inl plain_error, Inr (Some ''MERGED''), Inr (Some ''OPEN'')]
     = ([''b1'', ''b2'', ''b3''], new_tool, [Inl plain_error, Inr (Some ''MERGED''), Inr (Some ''OPEN'')])
   \<and> distinct [''b1'', ''b2'', ''b3'']
   \<and> answer_at (processBranch_call queued_query [''b1'', ''b2'', ''b3''])
        [Inl plain_error, Inr (Some ''MERGED''), Inr (Some ''OPEN'')] 0 = Inl plain_error
   \<and> prResults (fst (checkBranches (fixed_tracked [''b1'', ''b2'', ''b3'']) queued_query
        pick_eager new_tool [Inl plain_error, Inr (Some ''MERGED''), Inr (Some ''OPEN'')])) ! 0
      = Some \<lparr>branch = [''b1'', ''b2'', ''b3''] ! 0, icon = Warn, label = ''Error''\<rparr>
   \<and> answer_at (processBranch_call queued_query [''b1'', ''b2'', ''b3''])
        [Inl plain_error, Inr (Some ''MERGED''), Inr (Some ''OPEN'')] 1 = Inr (Some ''MERGED'')
   \<and> prResults (fst (checkBranches (fixed_tracked [''b1'', ''b2'', ''b3'']) queued_query
        pick_eager new_tool [Inl plain_error, Inr (Some ''MERGED''), Inr (Some ''OPEN'')])) ! 1
      = Some \<lparr>branch = [''b1'', ''b2'', ''b3''] ! 1, icon = fst (status_entry (Some ''MERGED'')),
               label = fst (snd (status_entry (Some ''MERGED'')))\<rparr>"
proof -
  let ?bs = "[''b1'', ''b2'', ''b3'']"
  let ?w = "[Inl plain_error, Inr (Some ''MERGED''), Inr (Some ''OPEN'')]"
  have h1: "fixed_tracked ?bs new_tool ?w = (?bs, new_tool, ?w)"
    by (simp add: fixed_tracked_def)
  have h2: "distinct ?bs"
    by simp
  note inst = checkBranches_isolates_failures [of "fixed_tracked ?bs" new_tool ?w ?bs new_tool ?w
      queued_query pick_eager, OF h1]
  note own = conjunct1 [OF conjunct2 [OF inst], rule_format, OF h2]
  have a0: "answer_at (processBranch_call queued_query ?bs) ?w 0 = Inl plain_error"
    by (simp add: answer_at_def processBranch_call_def queued_query_def)
  have a1: "answer_at (processBranch_call queued_query ?bs) ?w 1 = Inr (Some ''MERGED'')"
    by (simp add: answer_at_def processBranch_call_def queued_query_def)
  have i0: "(0::nat) < length ?bs" and i1: "(1::nat) < length ?bs"
    by simp_all
  have r0: "prResults (fst (checkBranches (fixed_tracked ?bs) queued_query pick_eager new_tool ?w)) ! 0
      = Some \<lparr>branch = ?bs ! 0, icon = Warn, label = ''Error''\<rparr>"
    by (rule conjunct1 [OF own, rule_format, OF i0 a0])
  have r1: "prResults (fst (checkBranches (fixed_tracked ?bs) queued_query pick_eager new_tool ?w)) ! 1
      = Some \<lparr>branch = ?bs ! 1, icon = fst (status_entry (Some ''MERGED'')),
               label = fst (snd (status_entry (Some ''MERGED'')))\<rparr>"
    by (rule conjunct2 [OF own, rule_format, OF i1 a1])
  show ?thesis
    by (rule conjI [OF h1 conjI [OF h2 conjI [OF a0 conjI [OF r0 conjI [OF a1 r1]]]]])
qed

text \<open>
  C3. The classification depends on the status value only: \<open>MERGED\<close> and \<open>CLOSED\<close> give
  their rows and put the branch on the deletion list, \<open>OPEN\<close> and the timeout sentinel
  give their rows and do not, every other value, \<open>null\<close> included, gives \<open>No PR\<close> and
  does not. After \<open>checkBranches\<close> (for the empty list, on a tool whose deletion list is
  empty, as the constructor leaves it), \<open>branchesToDelete\<close> holds exactly the branches of
  the input whose query settled to \<open>MERGED\<close> or \<open>CLOSED\<close>, each as often as it occurs
  with such a status, in the order in which the queries settled.
\<close>

theorem checkBranches_deletes_merged_closed:
  assumes "getTracked t w = (bs, t1, w1)" and "bs \<noteq> [] \<or> branchesToDelete t1 = []"
  shows "status_entry (Some ''MERGED'') = (Check, ''Merged'', True)
     \<and> status_entry (Some ''CLOSED'') = (Lock, ''Closed'', True)
     \<and> status_entry (Some ''OPEN'') = (Hourglass, ''Open'', False)
     \<and> status_entry (Some ''__TIMEOUT__'') = (Question, ''Timeout'', False)
     \<and> (\<forall>st. st \<noteq> Some ''MERGED'' \<and> st \<noteq> Some ''CLOSED'' \<and> st \<noteq> Some ''OPEN''
              \<and> st \<noteq> Some ''__TIMEOUT__''
           \<longrightarrow> status_entry st = (Cross, ''No PR'', False))
     \<and> mset (branchesToDelete (fst (checkBranches getTracked query pick t w)))
         = mset (map (\<lambda>i. bs ! i)
             (filter (\<lambda>i. answer_at (processBranch_call query bs) w1 i = Inr (Some ''MERGED'')
                        \<or> answer_at (processBranch_call query bs) w1 i = Inr (Some ''CLOSED''))
                [0..<length bs]))"
proof -
  have tbl: "status_entry (Some ''MERGED'') = (Check, ''Merged'', True)
     \<and> status_entry (Some ''CLOSED'') = (Lock, ''Closed'', True)
     \<and> status_entry (Some ''OPEN'') = (Hourglass, ''Open'', False)
     \<and> status_entry (Some ''__TIMEOUT__'') = (Question, ''Timeout'', False)
     \<and> (\<forall>st. st \<noteq> Some ''MERGED'' \<and> st \<noteq> Some ''CLOSED'' \<and> st \<noteq> Some ''OPEN''
              \<and> st \<noteq> Some ''__TIMEOUT__''
           \<longrightarrow> status_entry st = (Cross, ''No PR'', False))"
    by (simp add: status_entry_def)
  have del: "mset (branchesToDelete (fst (checkBranches getTracked query pick t w)))
         = mset (map (\<lambda>i. bs ! i)
             (filter (\<lambda>i. deletable (answer_at (processBranch_call query bs) w1 i))
                [0..<length bs]))"
  proof (cases "bs = []")
    case True
    then show ?thesis
      using assms checkBranches_empty [of getTracked t w t1 w1 query pick]
      by (simp add: emit_def)
  next
    case False
    show ?thesis
      by (rule checkBranches_rows(3) [of getTracked t w bs t1 w1 query pick, OF assms(1) False])
  qed
  show ?thesis
    using tbl del unfolding deletable_def by blast
qed

theorem checkBranches_deletes_merged_closed_witness:
  "fixed_tracked [''b1'', ''b2'', ''b3''] new_tool
       [Inr (Some ''CLOSED''), Inr (Some ''OPEN''), Inr (Some ''MERGED'')]
     = ([''b1'', ''b2'', ''b3''], new_tool,
        [Inr (Some ''CLOSED''), Inr (Some ''OPEN''), Inr (Some ''MERGED'')])
   \<and> [''b1'', ''b2'', ''b3''] \<noteq> ([] :: string list)
   \<and> branchesToDelete (fst (checkBranches (fixed_tracked [''b1'', ''b2'', ''b3'']) queued_query
        pick_eager new_tool [Inr (Some ''CLOSED''), Inr (Some ''OPEN''), Inr (Some ''MERGED'')]))
      = [''b3'', ''b1'']
   \<and> mset (branchesToDelete (fst (checkBranches (fixed_tracked [''b1'', ''b2'', ''b3''])
        queued_query pick_eager new_tool
        [Inr (Some ''CLOSED''), Inr (Some ''OPEN''), Inr (Some ''MERGED'')])))
      = mset [''b1'', ''b3'']"
proof -
  let ?bs = "[''b1'', ''b2'', ''b3'']"
  let ?w = "[Inr (Some ''CLOSED''), Inr (Some ''OPEN''), Inr (Some ''MERGED'')]"
  let ?ans = "answer_at (processBranch_call queued_query ?bs) ?w"
  have h1: "fixed_tracked ?bs new_tool ?w = (?bs, new_tool, ?w)"
    by (simp add: fixed_tracked_def)
  have ne: "?bs \<noteq> []"
    by simp
  then have h2: "?bs \<noteq> [] \<or> branchesToDelete new_tool = []"
    by (rule disjI1)
  note inst = checkBranches_deletes_merged_closed [of "fixed_tracked ?bs" new_tool ?w ?bs new_tool ?w
      queued_query pick_eager, OF h1 h2]
  have sel: "map (\<lambda>i. ?bs ! i)
      (filter (\<lambda>i. ?ans i = Inr (Some ''MERGED'') \<or> ?ans i = Inr (Some ''CLOSED'')) [0..<length ?bs])
      = [''b1'', ''b3'']"
    by code_simp
  have m: "mset (branchesToDelete (fst (checkBranches (fixed_tracked ?bs) queued_query
        pick_eager new_tool ?w))) = mset [''b1'', ''b3'']"
    using conjunct2 [OF conjunct2 [OF conjunct2 [OF conjunct2 [OF conjunct2 [OF inst]]]]]
    unfolding sel .
  have ev: "branchesToDelete (fst (checkBranches (fixed_tracked ?bs) queued_query
        pick_eager new_tool ?w)) = [''b3'', ''b1'']"
    by code_simp
  show ?thesis
    by (rule conjI [OF h1 conjI [OF ne conjI [OF ev m]]])
qed


text \<open>
  With a status query that notes the branch of each call, the note after
  \<open>checkBranches\<close> is the input list: one query per branch, in input order.
\<close>

lemma world_at_noting:
  "k \<le> length bs \<Longrightarrow>
     snd (world_at (processBranch_call (noting query) bs) (w, l) k) = l @ take k bs"
proof (induction k)
  case 0
  then show ?case by simp
next
  case (Suc k)
  then have "take (Suc k) bs = take k bs @ [bs ! k]"
    by (simp add: take_Suc_conv_app_nth)
  then show ?case
    using Suc by (simp add: processBranch_call_def noting_def split: prod.splits)
qed

lemma checkBranches_queries_in_order:
  assumes "getTracked t (w, l) = (bs, t1, (w1, l1))"
  shows "snd (fst (snd (checkBranches getTracked (noting query) pick t (w, l)))) = l1 @ bs"
proof (cases "bs = []")
  case True
  then show ?thesis
    using assms checkBranches_empty [of getTracked t "(w, l)" t1 "(w1, l1)" "noting query" pick]
    by simp
next
  case False
  from checkBranches_nonempty [of getTracked t "(w, l)" bs t1 "(w1, l1)" "noting query" pick,
      OF assms False]
  have "fst (snd (checkBranches getTracked (noting query) pick t (w, l)))
      = world_at (processBranch_call (noting query) bs) (w1, l1) (length bs)"
    by auto
  then show ?thesis
    using world_at_noting [of "length bs" bs query w1 l1] by simp
qed


section \<open>Deletion batch processor: properties\<close>

lemma find_result_defined:
  "None \<notin> set rs \<Longrightarrow> \<exists>found. find_result rs b = Inr found"
proof (induction rs)
  case Nil
  then show ?case by simp
next
  case (Cons r rs)
  then show ?case by (cases r) auto
qed

text \<open>Listing the candidates only prints; it throws only on an \<open>undefined\<close> row.\<close>

lemma list_candidates_defined:
  "None \<notin> set (prResults t) \<Longrightarrow>
     \<exists>t'. list_candidates bs t = Inr t' \<and> (\<exists>ls. t' = t\<lparr>events := events t @ ls\<rparr>)"
proof (induction bs arbitrary: t)
  case Nil
  have "t = t\<lparr>events := events t @ []\<rparr>" by simp
  then show ?case by (auto intro: exI [of _ "[]"])
next
  case (Cons b bs)
  from find_result_defined [OF Cons.prems, of b]
  obtain found where f: "find_result (prResults t) b = Inr found" by blast
  let ?l = "(Log, [T ''  '', I (case found of Some r \<Rightarrow> icon r | None \<Rightarrow> Trash), T '' '', T b])"
  let ?t = "emit Log [T ''  '', I (case found of Some r \<Rightarrow> icon r | None \<Rightarrow> Trash), T '' '', T b] t"
  have "None \<notin> set (prResults ?t)" using Cons.prems by (simp add: emit_def)
  from Cons.IH [OF this] obtain t' ls where
    t': "list_candidates bs ?t = Inr t'" "t' = ?t\<lparr>events := events ?t @ ls\<rparr>"
    by blast
  have "t' = t\<lparr>events := events t @ (?l # ls)\<rparr>"
    using t'(2) by (simp add: emit_def)
  then show ?case using f t'(1) by auto
qed

lemma deletion_settle_fields:
  "failedBranchesSync (deletion_settle bs i r v)
     = failedBranchesSync v @ (if delete_failed r then [bs ! i] else [])"
  "deletedCount (deletion_settle bs i r v) = deletedCount v + (if delete_failed r then 0 else 1)"
  "logLines (deletion_settle bs i r v) = logLines v @ [delete_line (bs ! i) r]"
  by (auto simp: deletion_settle_def delete_failed_def delete_line_def Let_def
      split: sum.splits option.splits)

lemma settled_deletions:
  "failedBranchesSync (foldl (\<lambda>s i. deletion_settle bs i (ans i) s) v0 cs)
     = failedBranchesSync v0 @ map (\<lambda>i. bs ! i) (filter (\<lambda>i. delete_failed (ans i)) cs)"
  "deletedCount (foldl (\<lambda>s i. deletion_settle bs i (ans i) s) v0 cs)
     = deletedCount v0 + length (filter (\<lambda>i. \<not> delete_failed (ans i)) cs)"
  "logLines (foldl (\<lambda>s i. deletion_settle bs i (ans i) s) v0 cs)
     = logLines v0 @ map (\<lambda>i. delete_line (bs ! i) (ans i)) cs"
  by (induction cs rule: rev_induct) (simp_all add: deletion_settle_fields)

lemma deletion_summary_events:
  "events (deletion_summary v t) = events t @ summary_lines (deletedCount v) (failedBranchesSync v)"
proof -
  have "\<And>t0. events (foldl (\<lambda>t' b. emit Log [T ''  Failed: '', T b] t') t0 fs)
      = events t0 @ map (\<lambda>b. (Log, [T ''  Failed: '', T b])) fs" for fs
    by (induction fs rule: rev_induct) (simp_all add: emit_def)
  then show ?thesis
    by (simp add: deletion_summary_def summary_lines_def emit_def)
qed

lemma deletion_summary_fields:
  "branchesToDelete (deletion_summary v t) = branchesToDelete t"
  "prResults (deletion_summary v t) = prResults t"
proof -
  have "\<And>t0. branchesToDelete (foldl (\<lambda>t' b. emit Log [T ''  Failed: '', T b] t') t0 fs)
        = branchesToDelete t0
      \<and> prResults (foldl (\<lambda>t' b. emit Log [T ''  Failed: '', T b] t') t0 fs) = prResults t0" for fs
    by (induction fs rule: rev_induct) (simp_all add: emit_def)
  then show "branchesToDelete (deletion_summary v t) = branchesToDelete t"
    and "prResults (deletion_summary v t) = prResults t"
    by (simp_all add: deletion_summary_def emit_def)
qed

text \<open>With a recording method, the calls made for the first \<open>k\<close> indices are on record.\<close>

lemma world_at_recording:
  "k \<le> length bs \<Longrightarrow>
     snd (world_at (deletion_call (recording exec) bs) (w, calls) k)
       = calls @ map (\<lambda>b. (delete_command b, \<lparr>silent = Some True, timeout = None\<rparr>)) (take k bs)"
proof (induction k)
  case 0
  then show ?case by simp
next
  case (Suc k)
  then have "take (Suc k) bs = take k bs @ [bs ! k]"
    by (simp add: take_Suc_conv_app_nth)
  then show ?case
    using Suc by (simp add: deletion_call_def recording_def split: prod.splits)
qed

lemma count_permuted:
  "mset cs = mset ds \<Longrightarrow> length (filter P cs) = length (filter P ds)"
proof -
  assume "mset cs = mset ds"
  then have "size (filter_mset P (mset cs)) = size (filter_mset P (mset ds))" by simp
  then show ?thesis by (simp only: mset_filter [symmetric] size_mset)
qed

text \<open>A deletion that the user declines, and one that the user confirms.\<close>

lemma deleteBranches_declined:
  assumes "\<not> dryRun t" "branchesToDelete t \<noteq> []" "None \<notin> set (prResults t)"
    and "askConfirmation (confirmationMessage t) w = (False, w1)"
  shows "\<exists>ls. deleteBranches exec askConfirmation pick t w
      = Inr (t\<lparr>events := events t @ ls @ [(Info, [T ''Cancelled.''])]\<rparr>, w1, None)"
proof -
  let ?t2 = "emit Error [T (if untrackedOnly t
       then ''The following untracked local branches will be deleted:''
       else ''The following branches have merged or closed PRs and will be deleted:'')]
     (emit Log [T ''''] t)"
  have "None \<notin> set (prResults ?t2)" using assms(3) by (simp add: emit_def)
  from list_candidates_defined [OF this, of "branchesToDelete t"]
  obtain t3 ls where t3: "list_candidates (branchesToDelete t) ?t2 = Inr t3"
    "t3 = ?t2\<lparr>events := events ?t2 @ ls\<rparr>"
    by blast
  have "\<exists>ls'. emit Info [T ''Cancelled.''] t3 = t\<lparr>events := events t @ ls' @ [(Info, [T ''Cancelled.''])]\<rparr>"
    unfolding t3(2) by (rule exI [of _ "_ # _ # ls"]) (simp add: emit_def)
  then show ?thesis
    using assms t3(1) by (auto simp: deleteBranches_def Let_def)
qed

lemma deleteBranches_confirmed:
  assumes "\<not> dryRun t" "branchesToDelete t \<noteq> []" "None \<notin> set (prResults t)"
    and "askConfirmation (confirmationMessage t) w = (True, w1)"
  shows "\<exists>p cs ls. mset cs = mset [0..<length (branchesToDelete t)]
      \<and> list_all finished (workers p)
      \<and> length (workers p) = min DELETE_CONCURRENCY (length (branchesToDelete t))
      \<and> nextIndex p = length (branchesToDelete t)
      \<and> shared p = foldl (\<lambda>s i. deletion_settle (branchesToDelete t) i
                               (answer_at (deletion_call exec (branchesToDelete t)) w1 i) s)
                     \<lparr>deletedCount = 0, failedBranchesSync = [], logLines = []\<rparr> cs
      \<and> deleteBranches exec askConfirmation pick t w
          = Inr (deletion_summary (shared p) (t\<lparr>events := events t @ ls @ logLines (shared p)\<rparr>),
                 world_at (deletion_call exec (branchesToDelete t)) w1 (length (branchesToDelete t)),
                 Some p)"
proof -
  let ?bs = "branchesToDelete t"
  let ?t2 = "emit Error [T (if untrackedOnly t
       then ''The following untracked local branches will be deleted:''
       else ''The following branches have merged or closed PRs and will be deleted:'')]
     (emit Log [T ''''] t)"
  let ?v0 = "\<lparr>deletedCount = 0, failedBranchesSync = [], logLines = []\<rparr>"
  let ?p = "drive (deletion_call exec ?bs) (deletion_settle ?bs) (length ?bs) pick
      (spawn (min DELETE_CONCURRENCY (length ?bs)) w1 ?v0)"
  have "None \<notin> set (prResults ?t2)" using assms(3) by (simp add: emit_def)
  from list_candidates_defined [OF this, of ?bs]
  obtain t3 ls where t3: "list_candidates ?bs ?t2 = Inr t3"
    "t3 = ?t2\<lparr>events := events ?t2 @ ls\<rparr>"
    by blast
  have pos: "0 < min DELETE_CONCURRENCY (length ?bs)"
    using assms(2) by (simp add: DELETE_CONCURRENCY_def)
  from drive_outcome [OF pos, of "deletion_call exec ?bs" "deletion_settle ?bs" "length ?bs"
      pick w1 ?v0]
  obtain cs where
    fin: "list_all finished (workers ?p)"
    and len: "length (workers ?p) = min DELETE_CONCURRENCY (length ?bs)"
    and ni: "nextIndex ?p = length ?bs"
    and wd: "world ?p = world_at (deletion_call exec ?bs) w1 (length ?bs)"
    and ms: "mset cs = mset [0..<length ?bs]"
    and sh: "shared ?p = foldl (\<lambda>s i. deletion_settle ?bs i
                               (answer_at (deletion_call exec ?bs) w1 i) s) ?v0 cs"
    by blast
  have ev: "(emit Log [T ''''] t3)\<lparr>events := events (emit Log [T ''''] t3) @ logLines (shared ?p)\<rparr>
      = t\<lparr>events := events t @ ((Log, [T '''']) # (Error, [T (if untrackedOnly t
       then ''The following untracked local branches will be deleted:''
       else ''The following branches have merged or closed PRs and will be deleted:'')]) # ls
          @ [(Log, [T ''''])]) @ logLines (shared ?p)\<rparr>"
    unfolding t3(2) by (simp add: emit_def)
  have db: "deleteBranches exec askConfirmation pick t w
      = Inr (deletion_summary (shared ?p)
               ((emit Log [T ''''] t3)\<lparr>events := events (emit Log [T ''''] t3) @ logLines (shared ?p)\<rparr>),
             world_at (deletion_call exec ?bs) w1 (length ?bs), Some ?p)"
    using assms t3(1) wd by (simp add: deleteBranches_def Let_def)
  show ?thesis
    using ms fin len ni sh db [unfolded ev] by blast
qed


text \<open>
  C4. \<open>deleteBranches\<close> outside a dry run, on a non-empty candidate list (and a results
  table without \<open>undefined\<close> rows, as \<open>checkBranches\<close> leaves it), with a method
  \<open>execCommand\<close> that records its calls. It does not throw and leaves the candidate list
  and the results table as they were. If the user declines, no command is issued, no
  pool is created and the last line printed is \<open>Cancelled.\<close>. If the user confirms, the
  commands issued are exactly one per candidate, in candidate order, each the text
  \<open>git branch -d\<close> followed by the branch name in double quotes, with \<open>silent\<close> set;
  a command that settles to the timeout sentinel or to \<open>null\<close> (or throws) counts as
  failed, any other result as deleted; each candidate gets its line, with \<open>(timeout)\<close>
  only for the sentinel; and the output ends with the summary: the count of deleted
  branches, and, when some failed, their number and one line for each of them.
\<close>

theorem deleteBranches_confirmation:
  assumes "\<not> dryRun t" and "branchesToDelete t \<noteq> []" and "None \<notin> set (prResults t)"
    and "askConfirmation (confirmationMessage t) (w, calls) = (confirmed, (w1, calls1))"
  shows "(case deleteBranches (recording exec) askConfirmation pick t (w, calls) of
            Inl e \<Rightarrow> False
          | Inr (t', (w', calls'), started) \<Rightarrow>
              branchesToDelete t' = branchesToDelete t \<and> prResults t' = prResults t
              \<and> (if confirmed
                  then calls' = calls1 @ map (\<lambda>b. (''git branch -d '' @ [CHR 0x22] @ b @ [CHR 0x22], \<lparr>silent = Some True, timeout = None\<rparr>))
                                          (branchesToDelete t)
                    \<and> (case started of
                         None \<Rightarrow> False
                       | Some p \<Rightarrow>
                           deletedCount (shared p)
                             = length (filter (\<lambda>i. \<not> delete_failed
                                   (answer_at (deletion_call (recording exec) (branchesToDelete t))
                                      (w1, calls1) i))
                                 [0..<length (branchesToDelete t)])
                           \<and> mset (failedBranchesSync (shared p))
                             = mset (map (\<lambda>i. branchesToDelete t ! i)
                                 (filter (\<lambda>i. delete_failed
                                     (answer_at (deletion_call (recording exec) (branchesToDelete t))
                                        (w1, calls1) i))
                                   [0..<length (branchesToDelete t)]))
                           \<and> (\<exists>cs pre. mset cs = mset [0..<length (branchesToDelete t)]
                                \<and> events t' = events t @ pre
                                    @ map (\<lambda>i. delete_line (branchesToDelete t ! i)
                                        (answer_at (deletion_call (recording exec) (branchesToDelete t))
                                           (w1, calls1) i)) cs
                                    @ summary_lines (deletedCount (shared p))
                                        (failedBranchesSync (shared p))))
                  else calls' = calls1 \<and> w' = w1 \<and> started = None
                    \<and> (\<exists>pre. events t' = events t @ pre @ [(Info, [T ''Cancelled.''])])))
     \<and> delete_failed (Inr (Some ''__TIMEOUT__'')) \<and> delete_failed (Inr None)
     \<and> (\<forall>e. delete_failed (Inl e))
     \<and> (\<forall>s. s \<noteq> ''__TIMEOUT__'' \<longrightarrow> \<not> delete_failed (Inr (Some s)))
     \<and> (\<forall>b. delete_line b (Inr (Some ''__TIMEOUT__''))
               = (Log, [I Cross, T '' Failed to delete branch '', T b, T '' (timeout)''])
            \<and> delete_line b (Inr None) = (Log, [I Cross, T '' Failed to delete branch '', T b])
            \<and> (\<forall>s. s \<noteq> ''__TIMEOUT__''
                  \<longrightarrow> delete_line b (Inr (Some s)) = (Log, [I Check, T '' Deleted branch '', T b])))"
proof -
  let ?bs = "branchesToDelete t"
  let ?ans = "answer_at (deletion_call (recording exec) ?bs) (w1, calls1)"
  have cls: "delete_failed (Inr (Some ''__TIMEOUT__'')) \<and> delete_failed (Inr None)
     \<and> (\<forall>e. delete_failed (Inl e))
     \<and> (\<forall>s. s \<noteq> ''__TIMEOUT__'' \<longrightarrow> \<not> delete_failed (Inr (Some s)))
     \<and> (\<forall>b. delete_line b (Inr (Some ''__TIMEOUT__''))
               = (Log, [I Cross, T '' Failed to delete branch '', T b, T '' (timeout)''])
            \<and> delete_line b (Inr None) = (Log, [I Cross, T '' Failed to delete branch '', T b])
            \<and> (\<forall>s. s \<noteq> ''__TIMEOUT__''
                  \<longrightarrow> delete_line b (Inr (Some s)) = (Log, [I Check, T '' Deleted branch '', T b])))"
    by (simp add: delete_failed_def delete_line_def TIMEOUT_SENTINEL_def)
  have main: "case deleteBranches (recording exec) askConfirmation pick t (w, calls) of
            Inl e \<Rightarrow> False
          | Inr (t', (w', calls'), started) \<Rightarrow>
              branchesToDelete t' = ?bs \<and> prResults t' = prResults t
              \<and> (if confirmed
                  then calls' = calls1 @ map (\<lambda>b. (''git branch -d '' @ [CHR 0x22] @ b @ [CHR 0x22], \<lparr>silent = Some True, timeout = None\<rparr>)) ?bs
                    \<and> (case started of
                         None \<Rightarrow> False
                       | Some p \<Rightarrow>
                           deletedCount (shared p)
                             = length (filter (\<lambda>i. \<not> delete_failed (?ans i)) [0..<length ?bs])
                           \<and> mset (failedBranchesSync (shared p))
                             = mset (map (\<lambda>i. ?bs ! i) (filter (\<lambda>i. delete_failed (?ans i)) [0..<length ?bs]))
                           \<and> (\<exists>cs pre. mset cs = mset [0..<length ?bs]
                                \<and> events t' = events t @ pre
                                    @ map (\<lambda>i. delete_line (?bs ! i) (?ans i)) cs
                                    @ summary_lines (deletedCount (shared p))
                                        (failedBranchesSync (shared p))))
                  else calls' = calls1 \<and> w' = w1 \<and> started = None
                    \<and> (\<exists>pre. events t' = events t @ pre @ [(Info, [T ''Cancelled.''])]))"
  proof (cases confirmed)
    case False
    with assms(4) have ask: "askConfirmation (confirmationMessage t) (w, calls) = (False, (w1, calls1))"
      by simp
    from deleteBranches_declined [of t askConfirmation "(w, calls)" "(w1, calls1)"
        "recording exec" pick, OF assms(1-3) ask]
    obtain ls where "deleteBranches (recording exec) askConfirmation pick t (w, calls)
        = Inr (t\<lparr>events := events t @ ls @ [(Info, [T ''Cancelled.''])]\<rparr>, (w1, calls1), None)"
      by blast
    then show ?thesis using False by simp
  next
    case True
    with assms(4) have ask: "askConfirmation (confirmationMessage t) (w, calls) = (True, (w1, calls1))"
      by simp
    let ?v0 = "\<lparr>deletedCount = 0, failedBranchesSync = [], logLines = []\<rparr>"
    from deleteBranches_confirmed [of t askConfirmation "(w, calls)" "(w1, calls1)"
        "recording exec" pick, OF assms(1-3) ask]
    obtain p cs ls where ms: "mset cs = mset [0..<length ?bs]"
      and sh: "shared p = foldl (\<lambda>s i. deletion_settle ?bs i (?ans i) s) ?v0 cs"
      and db: "deleteBranches (recording exec) askConfirmation pick t (w, calls)
          = Inr (deletion_summary (shared p) (t\<lparr>events := events t @ ls @ logLines (shared p)\<rparr>),
                 world_at (deletion_call (recording exec) ?bs) (w1, calls1) (length ?bs), Some p)"
      by blast
    obtain w' calls' where wa: "world_at (deletion_call (recording exec) ?bs) (w1, calls1) (length ?bs)
        = (w', calls')"
      by (cases "world_at (deletion_call (recording exec) ?bs) (w1, calls1) (length ?bs)") auto
    have calls': "calls' = calls1 @ map (\<lambda>b. (''git branch -d '' @ [CHR 0x22] @ b @ [CHR 0x22], \<lparr>silent = Some True, timeout = None\<rparr>)) ?bs"
      using world_at_recording [of "length ?bs" ?bs exec w1 calls1] wa
      by (simp add: delete_command_def dq_def)
    have dc: "deletedCount (shared p) = length (filter (\<lambda>i. \<not> delete_failed (?ans i)) [0..<length ?bs])"
      unfolding sh settled_deletions using count_permuted [OF ms] by simp
    have fl: "failedBranchesSync (shared p) = map (\<lambda>i. ?bs ! i) (filter (\<lambda>i. delete_failed (?ans i)) cs)"
      unfolding sh settled_deletions by simp
    have "mset (failedBranchesSync (shared p))
        = image_mset (\<lambda>i. ?bs ! i) (filter_mset (\<lambda>i. delete_failed (?ans i)) (mset cs))"
      unfolding fl by simp
    then have fm: "mset (failedBranchesSync (shared p))
        = mset (map (\<lambda>i. ?bs ! i) (filter (\<lambda>i. delete_failed (?ans i)) [0..<length ?bs]))"
      unfolding ms by simp
    have ll: "logLines (shared p) = map (\<lambda>i. delete_line (?bs ! i) (?ans i)) cs"
      unfolding sh settled_deletions by simp
    have ev: "events (deletion_summary (shared p) (t\<lparr>events := events t @ ls @ logLines (shared p)\<rparr>))
        = events t @ ls @ map (\<lambda>i. delete_line (?bs ! i) (?ans i)) cs
          @ summary_lines (deletedCount (shared p)) (failedBranchesSync (shared p))"
      unfolding deletion_summary_events ll by simp
    have ex: "\<exists>cs pre. mset cs = mset [0..<length ?bs]
        \<and> events (deletion_summary (shared p) (t\<lparr>events := events t @ ls @ logLines (shared p)\<rparr>))
            = events t @ pre @ map (\<lambda>i. delete_line (?bs ! i) (?ans i)) cs
              @ summary_lines (deletedCount (shared p)) (failedBranchesSync (shared p))"
      using ms ev by blast
    show ?thesis
      unfolding db wa using True calls' dc fm ex
      by (simp add: deletion_summary_fields)
  qed
  from main cls show ?thesis by (rule conjI)
qed

theorem deleteBranches_confirmation_witness:
  "\<not> dryRun (new_tool\<lparr>branchesToDelete := [''a'', ''b'', ''c'']\<rparr>)
   \<and> branchesToDelete (new_tool\<lparr>branchesToDelete := [''a'', ''b'', ''c'']\<rparr>) \<noteq> []
   \<and> None \<notin> set (prResults (new_tool\<lparr>branchesToDelete := [''a'', ''b'', ''c'']\<rparr>))
   \<and> fixed_answer True (confirmationMessage (new_tool\<lparr>branchesToDelete := [''a'', ''b'', ''c'']\<rparr>))
        ([Inr (Some ''Deleted branch a''), Inr (Some ''__TIMEOUT__''), Inr None] :: settled list,
         [] :: (string \<times> options) list)
       = (True, ([Inr (Some ''Deleted branch a''), Inr (Some ''__TIMEOUT__''), Inr None], []))
   \<and> (\<exists>t' w' p. deleteBranches (recording queued_exec) (fixed_answer True) pick_eager
          (new_tool\<lparr>branchesToDelete := [''a'', ''b'', ''c'']\<rparr>)
          ([Inr (Some ''Deleted branch a''), Inr (Some ''__TIMEOUT__''), Inr None], [])
        = Inr (t', (w', [(''git branch -d '' @ [CHR 0x22] @ ''a'' @ [CHR 0x22], \<lparr>silent = Some True, timeout = None\<rparr>),
                         (''git branch -d '' @ [CHR 0x22] @ ''b'' @ [CHR 0x22], \<lparr>silent = Some True, timeout = None\<rparr>),
                         (''git branch -d '' @ [CHR 0x22] @ ''c'' @ [CHR 0x22], \<lparr>silent = Some True, timeout = None\<rparr>)]), Some p)
        \<and> deletedCount (shared p) = 1
        \<and> mset (failedBranchesSync (shared p)) = mset [''b'', ''c''])
   \<and> fixed_answer False (confirmationMessage (new_tool\<lparr>branchesToDelete := [''a'', ''b'', ''c'']\<rparr>))
        ([Inr (Some ''Deleted branch a''), Inr (Some ''__TIMEOUT__''), Inr None] :: settled list,
         [] :: (string \<times> options) list)
       = (False, ([Inr (Some ''Deleted branch a''), Inr (Some ''__TIMEOUT__''), Inr None], []))
   \<and> (\<exists>t'. deleteBranches (recording queued_exec) (fixed_answer False) pick_eager
          (new_tool\<lparr>branchesToDelete := [''a'', ''b'', ''c'']\<rparr>)
          ([Inr (Some ''Deleted branch a''), Inr (Some ''__TIMEOUT__''), Inr None], [])
        = Inr (t', ([Inr (Some ''Deleted branch a''), Inr (Some ''__TIMEOUT__''), Inr None], []), None))"
proof -
  let ?t = "new_tool\<lparr>branchesToDelete := [''a'', ''b'', ''c'']\<rparr>"
  let ?q = "[Inr (Some ''Deleted branch a''), Inr (Some ''__TIMEOUT__''), Inr None] :: settled list"
  let ?c = "[] :: (string \<times> options) list"
  let ?ans = "answer_at (deletion_call (recording queued_exec) [''a'', ''b'', ''c'']) (?q, ?c)"
  have h1: "\<not> dryRun ?t" and h2: "branchesToDelete ?t \<noteq> []"
    and h3: "None \<notin> set (prResults ?t)"
    by (simp_all add: new_tool_def)
  have bs: "branchesToDelete ?t = [''a'', ''b'', ''c'']" by simp
  have h4: "fixed_answer True (confirmationMessage ?t) (?q, ?c) = (True, (?q, ?c))"
    by (simp add: fixed_answer_def)
  have h5: "fixed_answer False (confirmationMessage ?t) (?q, ?c) = (False, (?q, ?c))"
    by (simp add: fixed_answer_def)
  have n1: "length (filter (\<lambda>i. \<not> delete_failed (?ans i)) [0..<length [''a'', ''b'', ''c'']]) = 1"
    by code_simp
  have n2: "map (\<lambda>i. [''a'', ''b'', ''c''] ! i)
      (filter (\<lambda>i. delete_failed (?ans i)) [0..<length [''a'', ''b'', ''c'']]) = [''b'', ''c'']"
    by code_simp
  note yes = conjunct1 [OF deleteBranches_confirmation [where t = ?t
        and askConfirmation = "fixed_answer True" and w = ?q and calls = ?c and confirmed = True
        and ?w1.0 = ?q and ?calls1.0 = ?c and exec = queued_exec and pick = pick_eager,
        OF h1 h2 h3 h4], unfolded bs n1 n2]
  note no = conjunct1 [OF deleteBranches_confirmation [where t = ?t
        and askConfirmation = "fixed_answer False" and w = ?q and calls = ?c and confirmed = False
        and ?w1.0 = ?q and ?calls1.0 = ?c and exec = queued_exec and pick = pick_eager,
        OF h1 h2 h3 h5], unfolded bs]
  have a: "\<exists>t' w' p. deleteBranches (recording queued_exec) (fixed_answer True) pick_eager ?t (?q, ?c)
        = Inr (t', (w', [(''git branch -d '' @ [CHR 0x22] @ ''a'' @ [CHR 0x22], \<lparr>silent = Some True, timeout = None\<rparr>),
                         (''git branch -d '' @ [CHR 0x22] @ ''b'' @ [CHR 0x22], \<lparr>silent = Some True, timeout = None\<rparr>),
                         (''git branch -d '' @ [CHR 0x22] @ ''c'' @ [CHR 0x22], \<lparr>silent = Some True, timeout = None\<rparr>)]), Some p)
        \<and> deletedCount (shared p) = 1
        \<and> mset (failedBranchesSync (shared p)) = mset [''b'', ''c'']"
    using yes by (auto split: sum.splits prod.splits option.splits)
  have b: "\<exists>t'. deleteBranches (recording queued_exec) (fixed_answer False) pick_eager ?t (?q, ?c)
        = Inr (t', (?q, ?c), None)"
    using no by (auto split: sum.splits prod.splits)
  show ?thesis
    by (rule conjI [OF h1 conjI [OF h2 conjI [OF h3 conjI [OF h4 conjI [OF a conjI [OF h5 b]]]]]])
qed

text \<open>
  C9. The pool of \<open>checkBranches\<close> on \<open>N > 0\<close> tracked branches has \<open>min 5 N\<close> workers,
  never more than \<open>N\<close>; on no tracked branch the method prints the warning
  \<open>No tracked branches found to check.\<close> (and a hint), creates no pool and makes no
  query. The pool of a confirmed deletion of \<open>M > 0\<close> candidates has \<open>min 3 M\<close>
  workers, never more than \<open>M\<close>.
\<close>

theorem worker_counts:
  "(\<forall>bs t1 w1. getTracked t w = (bs, t1, w1) \<and> bs \<noteq> [] \<longrightarrow>
       (\<exists>p. snd (snd (checkBranches getTracked query pick t w)) = Some p
          \<and> length (workers p) = min 5 (length bs) \<and> length (workers p) \<le> length bs))
   \<and> (\<forall>t1 w1. getTracked t w = ([], t1, w1) \<longrightarrow>
       checkBranches getTracked query pick t w
         = (emit Info [T ''You might want to use --untracked-only to see local-only branches.'']
              (emit Warning [T ''No tracked branches found to check.''] t1), w1, None))
   \<and> (\<forall>u1. \<not> dryRun d \<and> branchesToDelete d \<noteq> [] \<and> None \<notin> set (prResults d)
          \<and> askConfirmation (confirmationMessage d) u = (True, u1) \<longrightarrow>
       (\<exists>d' u' p. deleteBranches exec askConfirmation pick' d u = Inr (d', u', Some p)
          \<and> length (workers p) = min 3 (length (branchesToDelete d))
          \<and> length (workers p) \<le> length (branchesToDelete d)))"
proof (intro conjI allI impI)
  fix bs t1 w1
  assume a: "getTracked t w = (bs, t1, w1) \<and> bs \<noteq> []"
  from checkBranches_nonempty [of getTracked t w bs t1 w1 query pick] a
  obtain p where "snd (snd (checkBranches getTracked query pick t w)) = Some p"
    "length (workers p) = min CONCURRENCY_LIMIT (length bs)"
    by auto
  then show "\<exists>p. snd (snd (checkBranches getTracked query pick t w)) = Some p
          \<and> length (workers p) = min 5 (length bs) \<and> length (workers p) \<le> length bs"
    by (auto simp: CONCURRENCY_LIMIT_def)
next
  fix t1 w1
  assume "getTracked t w = ([], t1, w1)"
  then show "checkBranches getTracked query pick t w
         = (emit Info [T ''You might want to use --untracked-only to see local-only branches.'']
              (emit Warning [T ''No tracked branches found to check.''] t1), w1, None)"
    by (rule checkBranches_empty)
next
  fix u1
  assume a: "\<not> dryRun d \<and> branchesToDelete d \<noteq> [] \<and> None \<notin> set (prResults d)
          \<and> askConfirmation (confirmationMessage d) u = (True, u1)"
  from deleteBranches_confirmed [of d askConfirmation u u1 exec pick'] a
  obtain p r where "deleteBranches exec askConfirmation pick' d u = Inr r" "snd (snd r) = Some p"
    "length (workers p) = min DELETE_CONCURRENCY (length (branchesToDelete d))"
    by auto
  then show "\<exists>d' u' p. deleteBranches exec askConfirmation pick' d u = Inr (d', u', Some p)
          \<and> length (workers p) = min 3 (length (branchesToDelete d))
          \<and> length (workers p) \<le> length (branchesToDelete d)"
    by (cases r) (auto simp: DELETE_CONCURRENCY_def)
qed

theorem worker_counts_witness:
  "fixed_tracked [''b1'', ''b2'', ''b3'', ''b4'', ''b5'', ''b6''] new_tool ([] :: settled list)
     = ([''b1'', ''b2'', ''b3'', ''b4'', ''b5'', ''b6''], new_tool, [])
   \<and> (\<exists>p. snd (snd (checkBranches (fixed_tracked [''b1'', ''b2'', ''b3'', ''b4'', ''b5'', ''b6''])
              queued_query pick_eager new_tool [])) = Some p
          \<and> length (workers p) = 5)
   \<and> fixed_tracked [] new_tool ([] :: settled list) = ([], new_tool, [])
   \<and> snd (snd (checkBranches (fixed_tracked []) queued_query pick_eager new_tool [])) = None
   \<and> fixed_answer True (confirmationMessage (new_tool\<lparr>branchesToDelete := [''a'', ''b'']\<rparr>))
        ([] :: settled list) = (True, [])
   \<and> (\<exists>d' u' p. deleteBranches queued_exec (fixed_answer True) pick_eager
          (new_tool\<lparr>branchesToDelete := [''a'', ''b'']\<rparr>) [] = Inr (d', u', Some p)
        \<and> length (workers p) = 2)"
proof -
  let ?b6 = "[''b1'', ''b2'', ''b3'', ''b4'', ''b5'', ''b6'']"
  let ?d = "new_tool\<lparr>branchesToDelete := [''a'', ''b'']\<rparr>"
  let ?e = "[] :: settled list"
  have h1: "fixed_tracked ?b6 new_tool ?e = (?b6, new_tool, ?e) \<and> ?b6 \<noteq> []"
    by (simp add: fixed_tracked_def)
  have h2: "fixed_tracked [] new_tool ?e = ([], new_tool, ?e)"
    by (simp add: fixed_tracked_def)
  have h3: "\<not> dryRun ?d \<and> branchesToDelete ?d \<noteq> [] \<and> None \<notin> set (prResults ?d)
      \<and> fixed_answer True (confirmationMessage ?d) ?e = (True, ?e)"
    by (simp add: new_tool_def fixed_answer_def)
  note i1 = worker_counts [where getTracked = "fixed_tracked ?b6" and t = new_tool and w = ?e
      and query = queued_query and pick = pick_eager]
  note i2 = worker_counts [where getTracked = "fixed_tracked []" and t = new_tool and w = ?e
      and query = queued_query and pick = pick_eager]
  note i3 = worker_counts [where d = ?d and askConfirmation = "fixed_answer True" and u = ?e
      and exec = queued_exec and pick' = pick_eager]
  have a: "\<exists>p. snd (snd (checkBranches (fixed_tracked ?b6) queued_query pick_eager new_tool ?e)) = Some p
          \<and> length (workers p) = 5"
    using conjunct1 [OF i1, rule_format, OF h1] by (auto simp: eval_nat_numeral)
  have "checkBranches (fixed_tracked []) queued_query pick_eager new_tool ?e
         = (emit Info [T ''You might want to use --untracked-only to see local-only branches.'']
              (emit Warning [T ''No tracked branches found to check.''] new_tool), ?e, None)"
    by (rule conjunct1 [OF conjunct2 [OF i2], rule_format, OF h2])
  then have b: "snd (snd (checkBranches (fixed_tracked []) queued_query pick_eager new_tool ?e)) = None"
    by simp
  have c: "\<exists>d' u' p. deleteBranches queued_exec (fixed_answer True) pick_eager ?d ?e = Inr (d', u', Some p)
        \<and> length (workers p) = 2"
    using conjunct2 [OF conjunct2 [OF i3], rule_format, OF h3] by (auto simp: eval_nat_numeral)
  show ?thesis
    by (rule conjI [OF conjunct1 [OF h1] conjI [OF a conjI [OF h2 conjI [OF b
          conjI [OF conjunct2 [OF conjunct2 [OF conjunct2 [OF h3]]] c]]]]])
qed


end
